theory Spec2Isabelle
  imports Complex_Main "HOL-Library.Log_Nat"
begin

section \<open>JavaScript values used by the pipeline\<close>

text \<open>
  A JavaScript \<^verbatim>\<open>number\<close> is modelled as the real number it denotes, with the two
  special values the code can produce: \<^verbatim>\<open>Number.POSITIVE_INFINITY\<close> (the initial
  \<^verbatim>\<open>minDistance\<close>) and \<^verbatim>\<open>NaN\<close> (from \<^verbatim>\<open>parseInt\<close> of a string without digits, or from
  arithmetic on \<^verbatim>\<open>undefined\<close>). Infinity is never an operand of arithmetic in this
  program, only of \<^verbatim>\<open><\<close>. The one place where the rounding of IEEE doubles changes a
  result (the resampler) models that rounding explicitly, see \<open>fl64\<close> below.
\<close>

datatype number = Num real | PosInf | NaN

text \<open>The comparison \<^verbatim>\<open>a < b\<close>: false as soon as one side is NaN.\<close>

fun lt :: "number \<Rightarrow> number \<Rightarrow> bool" where
  "lt (Num a) (Num b) = (a < b)"
| "lt (Num a) PosInf = True"
| "lt _ _ = False"

fun num1 :: "(real \<Rightarrow> real) \<Rightarrow> number \<Rightarrow> number" where
  "num1 f (Num a) = Num (f a)"
| "num1 f _ = NaN"

fun num2 :: "(real \<Rightarrow> real \<Rightarrow> real) \<Rightarrow> number \<Rightarrow> number \<Rightarrow> number" where
  "num2 f (Num a) (Num b) = Num (f a b)"
| "num2 f _ _ = NaN"

definition nsub :: "number \<Rightarrow> number \<Rightarrow> number" where
  "nsub = num2 (\<lambda>a b. a - b)"

definition nadd :: "number \<Rightarrow> number \<Rightarrow> number" where
  "nadd = num2 (\<lambda>a b. a + b)"

text \<open>\<^verbatim>\<open>Math.pow(x, 2)\<close> and \<^verbatim>\<open>Math.sqrt(x)\<close>.\<close>

definition pow2 :: "number \<Rightarrow> number" where
  "pow2 = num1 (\<lambda>a. a * a)"

definition nsqrt :: "number \<Rightarrow> number" where
  "nsqrt = num1 sqrt"

subsection \<open>Strings: \<^verbatim>\<open>substring\<close> and \<^verbatim>\<open>Number.parseInt(s, 16)\<close>\<close>

text \<open>\<^verbatim>\<open>s.substring(a, b)\<close> for \<open>a \<le> b\<close>; indices beyond the end are clamped.\<close>

definition substring :: "string \<Rightarrow> nat \<Rightarrow> nat \<Rightarrow> string" where
  "substring s a b = take (b - a) (drop a s)"

text \<open>\<^verbatim>\<open>s.substring(a)\<close>.\<close>

definition substringFrom :: "string \<Rightarrow> nat \<Rightarrow> string" where
  "substringFrom s a = drop a s"

definition isWhiteSpace :: "char \<Rightarrow> bool" where
  "isWhiteSpace c = (let n = (of_char c :: nat) in (9 \<le> n \<and> n \<le> 13) \<or> n = 32)"

definition hexDigit :: "char \<Rightarrow> nat option" where
  "hexDigit c =
     (let n = (of_char c :: nat) in
      if 48 \<le> n \<and> n \<le> 57 then Some (n - 48)
      else if 97 \<le> n \<and> n \<le> 102 then Some (n - 87)
      else if 65 \<le> n \<and> n \<le> 70 then Some (n - 55)
      else None)"

text \<open>The longest prefix of hexadecimal digits, as a value; \<open>None\<close> when it is empty.\<close>

fun digits16 :: "nat option \<Rightarrow> string \<Rightarrow> nat option" where
  "digits16 acc [] = acc"
| "digits16 acc (c # cs) =
     (case hexDigit c of
        None \<Rightarrow> acc
      | Some d \<Rightarrow> digits16 (Some (16 * (case acc of None \<Rightarrow> 0 | Some a \<Rightarrow> a) + d)) cs)"

text \<open>
  \<^verbatim>\<open>Number.parseInt(s, 16)\<close>: leading white space is skipped, then an optional sign, then
  an optional \<^verbatim>\<open>0x\<close>, then the longest prefix of digits; NaN when there is no digit.
\<close>

definition parseInt16 :: "string \<Rightarrow> number" where
  "parseInt16 s =
     (let s1 = dropWhile isWhiteSpace s;
          neg = (case s1 of [] \<Rightarrow> False | c # _ \<Rightarrow> c = CHR ''-'');
          s2 = (case s1 of [] \<Rightarrow> s1
                | c # t \<Rightarrow> if c = CHR ''-'' \<or> c = CHR ''+'' then t else s1);
          s3 = (case s2 of
                  a # b # t \<Rightarrow> if a = CHR ''0'' \<and> (b = CHR ''x'' \<or> b = CHR ''X'') then t else s2
                | _ \<Rightarrow> s2)
      in case digits16 None s3 of
           None \<Rightarrow> NaN
         | Some n \<Rightarrow> Num (if neg then - real n else real n))"

section \<open>Palette store: \<^verbatim>\<open>findClosestColor\<close>\<close>

text \<open>The three channels of a palette entry, as the loop body parses them.\<close>

definition channels :: "string \<Rightarrow> number \<times> number \<times> number" where
  "channels color =
     (let hex = substringFrom color 1;
          pr = parseInt16 (substring hex 0 2);
          pg = parseInt16 (substring hex 2 4);
          pb = parseInt16 (substring hex 4 6)
      in (pr, pg, pb))"

text \<open>The \<^verbatim>\<open>distance\<close> of the loop body: Euclidean distance in RGB space.\<close>

definition colorDistance :: "number \<Rightarrow> number \<Rightarrow> number \<Rightarrow> string \<Rightarrow> number" where
  "colorDistance r g b color =
     (case channels color of (pr, pg, pb) \<Rightarrow>
        nsqrt (nadd (nadd (pow2 (nsub r pr)) (pow2 (nsub g pg))) (pow2 (nsub b pb))))"

text \<open>
  The \<^verbatim>\<open>for (const color of palette)\<close> loop on the pair \<open>(minDistance, closestColor)\<close>.
  \<open>closestColor\<close> is \<open>None\<close> for \<^verbatim>\<open>undefined\<close>.
\<close>

fun closestLoop ::
  "number \<Rightarrow> number \<Rightarrow> number \<Rightarrow> number \<times> string option \<Rightarrow> string list
     \<Rightarrow> number \<times> string option" where
  "closestLoop r g b acc [] = acc"
| "closestLoop r g b (minDistance, closestColor) (color # rest) =
     (let distance = colorDistance r g b color in
      if lt distance minDistance then closestLoop r g b (distance, Some color) rest
      else closestLoop r g b (minDistance, closestColor) rest)"

text \<open>\<^verbatim>\<open>palette[0]\<close>: \<^verbatim>\<open>undefined\<close> on the empty array.\<close>

definition first :: "'a list \<Rightarrow> 'a option" where
  "first xs = (case xs of [] \<Rightarrow> None | x # _ \<Rightarrow> Some x)"

definition findClosestColor :: "number \<Rightarrow> number \<Rightarrow> number \<Rightarrow> string list \<Rightarrow> string option" where
  "findClosestColor r g b palette = snd (closestLoop r g b (PosInf, first palette) palette)"

text \<open>A palette entry whose three channels parse: its distance to any query is a number.\<close>

definition isColor :: "string \<Rightarrow> bool" where
  "isColor color =
     (case channels color of (Num _, Num _, Num _) \<Rightarrow> True | _ \<Rightarrow> False)"

text \<open>
  Entry \<open>i\<close> is the loop's choice on \<open>xs\<close>: no entry is strictly closer, and every
  earlier entry is strictly farther.
\<close>

definition best :: "number \<Rightarrow> number \<Rightarrow> number \<Rightarrow> string list \<Rightarrow> nat \<Rightarrow> bool" where
  "best r g b xs i \<longleftrightarrow>
     i < length xs \<and>
     (\<forall>j<length xs. \<not> lt (colorDistance r g b (xs ! j)) (colorDistance r g b (xs ! i))) \<and>
     (\<forall>j<i. lt (colorDistance r g b (xs ! i)) (colorDistance r g b (xs ! j)))"

section \<open>Resampler: target dimensions\<close>

text \<open>
  The resampler computes \<^verbatim>\<open>Math.round(height * (maxBeads / width))\<close> in IEEE double
  arithmetic, and there the rounding of the two operations decides the result at exact
  halves (a 200 by 100 image at 29 cells: 14, where exact arithmetic rounds 14.5 up to
  15). \<open>fl64\<close> rounds a rational to the nearest number with a 53 bit significand,
  ties to even; exponent range (overflow, subnormal numbers) is not modelled. The
  dimensions and \<^verbatim>\<open>maxBeads\<close> are integers below \<open>2\<^sup>5\<^sup>3\<close>, which are doubles.
\<close>

definition roundHalfEven :: "'a::floor_ceiling \<Rightarrow> int" where
  "roundHalfEven x =
     (let f = \<lfloor>x\<rfloor>; d = x - of_int f in
      if d < 1 / 2 then f else if 1 / 2 < d then f + 1 else if even f then f else f + 1)"

text \<open>The binary exponent \<open>e\<close> of a positive rational: \<open>2\<^sup>e \<le> x < 2\<^sup>e\<^sup>+\<^sup>1\<close>.\<close>

definition binExponent :: "rat \<Rightarrow> int" where
  "binExponent x =
     (case quotient_of x of (a, b) \<Rightarrow>
        let k = bitlen a - bitlen b in if 2 powi k \<le> x then k else k - 1)"

definition fl64 :: "rat \<Rightarrow> rat" where
  "fl64 x =
     (if x = 0 then 0
      else let e = binExponent \<bar>x\<bar> - 52
           in sgn x * of_int (roundHalfEven (\<bar>x\<bar> / 2 powi e)) * 2 powi e)"

text \<open>\<^verbatim>\<open>Math.round\<close>: the nearest integer, halves towards \<open>+\<infinity>\<close>.\<close>

definition mathRound :: "rat \<Rightarrow> int" where
  "mathRound x = \<lfloor>x + 1 / 2\<rfloor>"

text \<open>
  The dimension computation at the head of \<^verbatim>\<open>img.onload\<close> in \<^verbatim>\<open>processImage\<close>, from
  \<^verbatim>\<open>img.width\<close>, \<^verbatim>\<open>img.height\<close> and \<^verbatim>\<open>maxBeads\<close>; the result is \<open>(width, height)\<close>.
\<close>

definition targetDims :: "nat \<Rightarrow> nat \<Rightarrow> nat \<Rightarrow> nat \<times> nat" where
  "targetDims imgWidth imgHeight maxBeads =
     (let width = imgWidth; height = imgHeight in
      if width > height then
        (if width > maxBeads then
           (maxBeads, nat (mathRound (fl64 (of_nat height * fl64 (of_nat maxBeads / of_nat width)))))
         else (width, height))
      else
        (if height > maxBeads then
           (nat (mathRound (fl64 (of_nat width * fl64 (of_nat maxBeads / of_nat height)))), maxBeads)
         else (width, height)))"

section \<open>Pixel buffer\<close>

text \<open>
  \<^verbatim>\<open>imageData.data\<close>: the RGBA bytes of the resampled image, four per pixel, row by row.
  A read outside the array is \<^verbatim>\<open>undefined\<close>, which arithmetic turns into NaN; both are
  the value \<open>NaN\<close> here.
\<close>

definition chan :: "nat list \<Rightarrow> nat \<Rightarrow> number" where
  "chan data i = (if i < length data then Num (real (data ! i)) else NaN)"

definition nmul :: "number \<Rightarrow> number \<Rightarrow> number" where
  "nmul = num2 (\<lambda>a b. a * b)"

definition ndiv :: "number \<Rightarrow> number \<Rightarrow> number" where
  "ndiv = num2 (\<lambda>a b. a / b)"

type_synonym rgb = "number \<times> number \<times> number"

section \<open>Background segmentation\<close>

text \<open>
  The dimensions are positive where these functions are called (\<^verbatim>\<open>getImageData\<close> throws
  on an empty rectangle before), so \<^verbatim>\<open>width - 1\<close> and \<^verbatim>\<open>height - 1\<close> are natural numbers.
\<close>

definition samplePoints :: "nat \<Rightarrow> nat \<Rightarrow> (nat \<times> nat) list" where
  "samplePoints width height =
     [(0, 0), (width - 1, 0), (0, height - 1), (width - 1, height - 1),
      (width div 2, 0), (width div 2, height - 1),
      (0, height div 2), (width - 1, height div 2)]"

text \<open>
  \<^verbatim>\<open>colorFreq\<close>: an object keyed by the string \<^verbatim>\<open>r,g,b\<close>, here an association list in
  insertion order keyed by the triple.
\<close>

fun countColor :: "(rgb \<times> nat) list \<Rightarrow> rgb \<Rightarrow> (rgb \<times> nat) list" where
  "countColor [] key = [(key, 1)]"
| "countColor ((k, c) # rest) key =
     (if k = key then (k, Suc c) # rest else (k, c) # countColor rest key)"

definition pixelColor :: "nat list \<Rightarrow> nat \<Rightarrow> rgb" where
  "pixelColor data idx = (chan data idx, chan data (idx + 1), chan data (idx + 2))"

text \<open>
  The seed colour: the most frequent colour of the eight sample points;
  \<^verbatim>\<open>sort((a, b) => b.count - a.count)\<close> is stable, so among the most frequent the first
  one sampled wins. \<open>(0, 0, 0)\<close> is the initial value of \<^verbatim>\<open>bgColorR/G/B\<close>.
\<close>

definition backgroundColor :: "nat list \<Rightarrow> nat \<Rightarrow> nat \<Rightarrow> rgb" where
  "backgroundColor data width height =
     (let colorFreq =
            foldl (\<lambda>freq (x, y). countColor freq (pixelColor data ((y * width + x) * 4)))
              [] (samplePoints width height);
          sortedColors = sort_key (\<lambda>(k, c). - int c) colorFreq
      in case sortedColors of [] \<Rightarrow> (Num 0, Num 0, Num 0) | (k, c) # _ \<Rightarrow> k)"

text \<open>\<^verbatim>\<open>colorDiff\<close> of the pixel with index \<open>idx\<close>: its distance to the seed, normalised.\<close>

definition colorDiff :: "nat list \<Rightarrow> rgb \<Rightarrow> nat \<Rightarrow> number" where
  "colorDiff data bg idx =
     (case bg of (bgColorR, bgColorG, bgColorB) \<Rightarrow>
        let pixelIdx = idx * 4;
            r = chan data pixelIdx;
            g = chan data (pixelIdx + 1);
            b = chan data (pixelIdx + 2)
        in ndiv (nsqrt (nadd (nadd (pow2 (nsub r bgColorR)) (pow2 (nsub g bgColorG)))
                             (pow2 (nsub b bgColorB))))
                (Num (255 * sqrt 3)))"

text \<open>The starting queue: top and bottom edges, then left and right edges without corners.\<close>

definition borderQueue :: "nat \<Rightarrow> nat \<Rightarrow> (nat \<times> nat) list" where
  "borderQueue width height =
     concat (map (\<lambda>x. [(x, 0), (x, height - 1)]) [0..<width]) @
     concat (map (\<lambda>y. [(0, y), (width - 1, y)]) [1..<height - 1])"

text \<open>The four conditional \<^verbatim>\<open>queue.push\<close> calls.\<close>

definition neighbours :: "nat \<Rightarrow> nat \<Rightarrow> nat \<Rightarrow> nat \<Rightarrow> (nat \<times> nat) list" where
  "neighbours width height x y =
     (if x > 0 then [(x - 1, y)] else []) @
     (if x < width - 1 then [(x + 1, y)] else []) @
     (if y > 0 then [(x, y - 1)] else []) @
     (if y < height - 1 then [(x, y + 1)] else [])"

text \<open>
  The \<^verbatim>\<open>while (queue.length > 0)\<close> loop on \<open>(queue, visited, transparentPixels)\<close>.
  It terminates: a pixel that passes the test is inside the buffer and was not visited.
\<close>

function floodLoop ::
  "nat list \<Rightarrow> rgb \<Rightarrow> number \<Rightarrow> nat \<Rightarrow> nat \<Rightarrow> (nat \<times> nat) list \<Rightarrow> nat set \<Rightarrow> nat set
     \<Rightarrow> nat set" where
  "floodLoop data bg bgThreshold width height [] visited transparentPixels = transparentPixels"
| "floodLoop data bg bgThreshold width height ((x, y) # queue) visited transparentPixels =
     (let idx = y * width + x in
      if idx \<in> visited
      then floodLoop data bg bgThreshold width height queue visited transparentPixels
      else if lt (colorDiff data bg idx) bgThreshold
      then floodLoop data bg bgThreshold width height
             (queue @ neighbours width height x y) (insert idx visited)
             (insert idx transparentPixels)
      else floodLoop data bg bgThreshold width height queue (insert idx visited)
             transparentPixels)"
  by pat_completeness auto
termination
proof (relation "measures
    [\<lambda>(data, bg, t, w, h, q, v, tp). card ({..<length data} - v),
     \<lambda>(data, bg, t, w, h, q, v, tp). length q]", goal_cases)
  case 1
  then show ?case by simp
next
  case 2
  then show ?case by simp
next
  case (3 data bg bgThreshold width height x y queue visited transparentPixels idx)
  have "idx * 4 < length data"
    using 3(3) by (cases bg) (auto simp: colorDiff_def chan_def Let_def nsub_def pow2_def
        nadd_def nsqrt_def ndiv_def split: if_splits)
  then have "idx \<in> {..<length data} - visited" using 3(2) by simp
  then have "card ({..<length data} - insert idx visited) < card ({..<length data} - visited)"
    by (metis Diff_insert card_Diff1_less finite_Diff finite_lessThan)
  then show ?case by simp
next
  case (4 data bg bgThreshold width height x y queue visited transparentPixels idx)
  have "card ({..<length data} - insert idx visited) \<le> card ({..<length data} - visited)"
    by (intro card_mono) auto
  then show ?case by auto
qed

text \<open>The background-removal block of \<^verbatim>\<open>processImage\<close>: the final \<^verbatim>\<open>transparentPixels\<close>.\<close>

definition floodFill :: "nat list \<Rightarrow> nat \<Rightarrow> nat \<Rightarrow> real \<Rightarrow> nat set" where
  "floodFill data width height backgroundThreshold =
     (let bgThreshold = Num (backgroundThreshold / 100);
          bg = backgroundColor data width height
      in floodLoop data bg bgThreshold width height (borderQueue width height) {} {})"

definition isBackgroundColor :: "bool \<Rightarrow> nat set \<Rightarrow> nat \<Rightarrow> nat \<Rightarrow> nat \<Rightarrow> bool" where
  "isBackgroundColor removeBackground transparentPixels width x y =
     (if \<not> removeBackground then False else y * width + x \<in> transparentPixels)"

subsection \<open>Border-connected pixels\<close>

text \<open>
  The notions the segmentation is specified with: the border of the buffer, 4-adjacency,
  and chains of adjacent pixels that all pass a test.
\<close>

definition border :: "nat \<Rightarrow> nat \<Rightarrow> nat \<times> nat \<Rightarrow> bool" where
  "border width height p =
     (case p of (x, y) \<Rightarrow>
        x < width \<and> y < height \<and> (x = 0 \<or> y = 0 \<or> x = width - 1 \<or> y = height - 1))"

definition adjacent :: "nat \<times> nat \<Rightarrow> nat \<times> nat \<Rightarrow> bool" where
  "adjacent p q =
     (case p of (x, y) \<Rightarrow> case q of (x', y') \<Rightarrow>
        (y = y' \<and> (x = Suc x' \<or> x' = Suc x)) \<or> (x = x' \<and> (y = Suc y' \<or> y' = Suc y)))"

fun chain :: "(nat \<times> nat \<Rightarrow> bool) \<Rightarrow> (nat \<times> nat) list \<Rightarrow> bool" where
  "chain ok [] = True"
| "chain ok [p] = ok p"
| "chain ok (p # q # ps) = (ok p \<and> adjacent p q \<and> chain ok (q # ps))"

text \<open>\<open>p\<close> is the end of a chain that starts on the border.\<close>

definition reachable :: "(nat \<times> nat \<Rightarrow> bool) \<Rightarrow> nat \<Rightarrow> nat \<Rightarrow> nat \<times> nat \<Rightarrow> bool" where
  "reachable ok width height p =
     (\<exists>ps. ps \<noteq> [] \<and> border width height (hd ps) \<and> last ps = p \<and> chain ok ps)"

text \<open>
  The test of the claim on the pixel at \<open>(x, y)\<close>: inside the buffer, and normalised
  distance to the seed colour strictly below the bound.
\<close>

definition withinThreshold ::
  "nat list \<Rightarrow> rgb \<Rightarrow> number \<Rightarrow> nat \<Rightarrow> nat \<Rightarrow> nat \<times> nat \<Rightarrow> bool" where
  "withinThreshold data bg bgThreshold width height p =
     (case p of (x, y) \<Rightarrow>
        x < width \<and> y < height \<and> lt (colorDiff data bg (y * width + x)) bgThreshold)"

text \<open>The invariant of the flood-fill loop.\<close>

definition floodInv ::
  "(nat \<Rightarrow> bool) \<Rightarrow> nat \<Rightarrow> nat \<Rightarrow> (nat \<times> nat) list \<Rightarrow> nat set \<Rightarrow> nat set \<Rightarrow> bool" where
  "floodInv sim w h Q V T \<longleftrightarrow>
     (\<forall>i\<in>T. i \<in> V \<and> sim i \<and>
        (\<exists>x y. x < w \<and> y < h \<and> i = y * w + x \<and>
           reachable (\<lambda>(x, y). x < w \<and> y < h \<and> sim (y * w + x)) w h (x, y))) \<and>
     (\<forall>i\<in>V. sim i \<longrightarrow> i \<in> T) \<and>
     (\<forall>(x, y)\<in>set Q. x < w \<and> y < h \<and>
        (border w h (x, y) \<or>
         (\<exists>x' y'. x' < w \<and> y' < h \<and> adjacent (x', y') (x, y) \<and> y' * w + x' \<in> T))) \<and>
     (\<forall>x y. border w h (x, y) \<longrightarrow> y * w + x \<in> V \<or> (x, y) \<in> set Q) \<and>
     (\<forall>x y x' y'. x < w \<and> y < h \<and> y * w + x \<in> T \<and> x' < w \<and> y' < h \<and>
        adjacent (x, y) (x', y') \<longrightarrow> y' * w + x' \<in> V \<or> (x', y') \<in> set Q)"

section \<open>Quantizer\<close>

datatype error =
    LoadError         \<comment> \<open>\<^verbatim>\<open>img.onerror\<close>: \<^verbatim>\<open>Failed to load image\<close>\<close>
  | IndexSizeError    \<comment> \<open>\<^verbatim>\<open>getImageData\<close> on a rectangle without area\<close>
  | TypeError         \<comment> \<open>a property read on \<^verbatim>\<open>undefined\<close>\<close>

subsection \<open>Standard colour mapping\<close>

text \<open>
  One iteration of the inner loop without dithering: the value stored in
  \<^verbatim>\<open>colorGrid[y][x]\<close>. \<^verbatim>\<open>closestColor.substring(1)\<close> throws when \<^verbatim>\<open>findClosestColor\<close>
  returned \<^verbatim>\<open>undefined\<close>. The writes to \<^verbatim>\<open>data\<close> are left out: every pixel is read before
  it is written, and the processing canvas is not part of the result.
\<close>

definition plainCell ::
  "nat list \<Rightarrow> string list \<Rightarrow> (nat \<Rightarrow> nat \<Rightarrow> bool) \<Rightarrow> nat \<Rightarrow> nat \<Rightarrow> nat \<Rightarrow> error + string" where
  "plainCell data palette isBackground width x y =
     (let index = (y * width + x) * 4;
          r = chan data index;
          g = chan data (index + 1);
          b = chan data (index + 2)
      in if isBackground x y then Inr ''transparent''
         else case findClosestColor r g b palette of
                None \<Rightarrow> Inl TypeError
              | Some closestColor \<Rightarrow> Inr closestColor)"

fun plainRow ::
  "nat list \<Rightarrow> string list \<Rightarrow> (nat \<Rightarrow> nat \<Rightarrow> bool) \<Rightarrow> nat \<Rightarrow> nat \<Rightarrow> nat list
     \<Rightarrow> error + string list" where
  "plainRow data palette isBackground width y [] = Inr []"
| "plainRow data palette isBackground width y (x # xs) =
     (case plainCell data palette isBackground width x y of
        Inl e \<Rightarrow> Inl e
      | Inr c \<Rightarrow>
          (case plainRow data palette isBackground width y xs of
             Inl e \<Rightarrow> Inl e
           | Inr row \<Rightarrow> Inr (c # row)))"

fun plainRows ::
  "nat list \<Rightarrow> string list \<Rightarrow> (nat \<Rightarrow> nat \<Rightarrow> bool) \<Rightarrow> nat \<Rightarrow> nat list
     \<Rightarrow> error + string list list" where
  "plainRows data palette isBackground width [] = Inr []"
| "plainRows data palette isBackground width (y # ys) =
     (case plainRow data palette isBackground width y [0..<width] of
        Inl e \<Rightarrow> Inl e
      | Inr row \<Rightarrow>
          (case plainRows data palette isBackground width ys of
             Inl e \<Rightarrow> Inl e
           | Inr rows \<Rightarrow> Inr (row # rows)))"

subsection \<open>Floyd-Steinberg dithering\<close>

text \<open>
  The working copy \<^verbatim>\<open>pixels\<close> is a \<^verbatim>\<open>Uint8ClampedArray\<close>: every store converts the
  number with \<^verbatim>\<open>ToUint8Clamp\<close> (NaN to 0, clamp to \<open>[0, 255]\<close>, round to the nearest
  integer, halves to the even one), and a store outside the array is ignored.
\<close>

definition toUint8Clamp :: "number \<Rightarrow> nat" where
  "toUint8Clamp v =
     (case v of
        NaN \<Rightarrow> 0
      | PosInf \<Rightarrow> 255
      | Num x \<Rightarrow> if x \<le> 0 then 0 else if 255 \<le> x then 255 else nat (roundHalfEven x))"

text \<open>\<^verbatim>\<open>pixels[i] += v\<close>.\<close>

definition addAt :: "nat list \<Rightarrow> nat \<Rightarrow> number \<Rightarrow> nat list" where
  "addAt pixels i v = pixels[i := toUint8Clamp (nadd (chan pixels i) v)]"

text \<open>\<^verbatim>\<open>(err * k) / 16\<close>.\<close>

definition share :: "number \<Rightarrow> real \<Rightarrow> number" where
  "share err k = ndiv (nmul err (Num k)) (Num 16)"

text \<open>The three channel updates of one neighbour whose red byte is at index \<open>i\<close>.\<close>

definition spread :: "nat list \<Rightarrow> nat \<Rightarrow> number \<times> number \<times> number \<Rightarrow> real \<Rightarrow> nat list" where
  "spread pixels i err k =
     (case err of (errR, errG, errB) \<Rightarrow>
        addAt (addAt (addAt pixels i (share errR k)) (i + 1) (share errG k)) (i + 2) (share errB k))"

text \<open>
  One iteration of the inner loop with dithering: the value stored in
  \<^verbatim>\<open>colorGrid[y][x]\<close> and the working copy after the iteration.
\<close>

definition ditherCell ::
  "string list \<Rightarrow> (nat \<Rightarrow> nat \<Rightarrow> bool) \<Rightarrow> nat \<Rightarrow> nat \<Rightarrow> nat list \<Rightarrow> nat \<Rightarrow> nat
     \<Rightarrow> error + (string \<times> nat list)" where
  "ditherCell palette isBackground width height pixels x y =
     (let idx = (y * width + x) * 4;
          r = chan pixels idx;
          g = chan pixels (idx + 1);
          b = chan pixels (idx + 2)
      in if isBackground x y then Inr (''transparent'', pixels)
         else case findClosestColor r g b palette of
                None \<Rightarrow> Inl TypeError
              | Some closestColor \<Rightarrow>
                  (case channels closestColor of (cr, cg, cb) \<Rightarrow>
                     let err = (nsub r cr, nsub g cg, nsub b cb);
                         p1 = (if x + 1 < width then spread pixels (idx + 4) err 7 else pixels);
                         p2 = (if y + 1 < height then
                                 let q1 = (if x > 0 then spread p1 (idx + 4 * width - 4) err 3
                                           else p1);
                                     q2 = spread q1 (idx + 4 * width) err 5
                                 in if x + 1 < width then spread q2 (idx + 4 * width + 4) err 1
                                    else q2
                               else p1)
                     in Inr (closestColor, p2)))"

fun ditherRow ::
  "string list \<Rightarrow> (nat \<Rightarrow> nat \<Rightarrow> bool) \<Rightarrow> nat \<Rightarrow> nat \<Rightarrow> nat list \<Rightarrow> nat \<Rightarrow> nat list
     \<Rightarrow> error + (string list \<times> nat list)" where
  "ditherRow palette isBackground width height pixels y [] = Inr ([], pixels)"
| "ditherRow palette isBackground width height pixels y (x # xs) =
     (case ditherCell palette isBackground width height pixels x y of
        Inl e \<Rightarrow> Inl e
      | Inr (c, pixels') \<Rightarrow>
          (case ditherRow palette isBackground width height pixels' y xs of
             Inl e \<Rightarrow> Inl e
           | Inr (row, pixels'') \<Rightarrow> Inr (c # row, pixels'')))"

fun ditherRows ::
  "string list \<Rightarrow> (nat \<Rightarrow> nat \<Rightarrow> bool) \<Rightarrow> nat \<Rightarrow> nat \<Rightarrow> nat list \<Rightarrow> nat list
     \<Rightarrow> error + string list list" where
  "ditherRows palette isBackground width height pixels [] = Inr []"
| "ditherRows palette isBackground width height pixels (y # ys) =
     (case ditherRow palette isBackground width height pixels y [0..<width] of
        Inl e \<Rightarrow> Inl e
      | Inr (row, pixels') \<Rightarrow>
          (case ditherRows palette isBackground width height pixels' ys of
             Inl e \<Rightarrow> Inl e
           | Inr rows \<Rightarrow> Inr (row # rows)))"

section \<open>Rasterizer\<close>

text \<open>
  A canvas is modelled by its size and the drawing calls made on it since it was sized
  (assigning \<^verbatim>\<open>canvas.width\<close> clears it); \<^verbatim>\<open>toDataURL\<close> is the canvas itself. \<open>FillStyle\<close>
  is the assignment to \<^verbatim>\<open>ctx.fillStyle\<close> (\<open>None\<close> for \<^verbatim>\<open>undefined\<close>); \<open>StrokeRect\<close> is
  \<^verbatim>\<open>strokeRect\<close> with the stroke style \<^verbatim>\<open>rgba(0, 0, 0, 0.2)\<close> and line width 0.5 that
  always precede it.
\<close>

datatype drawOp =
    ClearRect int int int int
  | FillStyle "string option"
  | FillRect int int int int
  | StrokeRect int int int int

record bitmap =
  bmWidth :: nat
  bmHeight :: nat
  ops :: "drawOp list"

definition drawBead :: "string option \<Rightarrow> int \<Rightarrow> int \<Rightarrow> int \<Rightarrow> bool \<Rightarrow> drawOp list" where
  "drawBead color x y beadSize showGrid =
     [FillStyle color, FillRect (x * beadSize) (y * beadSize) beadSize beadSize] @
     (if showGrid then [StrokeRect (x * beadSize) (y * beadSize) beadSize beadSize] else [])"

text \<open>The loop \<^verbatim>\<open>Draw each bead as a colored square\<close>, on a rectangular grid.\<close>

definition drawGrid :: "string list list \<Rightarrow> nat \<Rightarrow> nat \<Rightarrow> nat \<Rightarrow> bool \<Rightarrow> drawOp list" where
  "drawGrid grid width height beadSize showGrid =
     concat (map (\<lambda>y. concat (map (\<lambda>x.
        let color = grid ! y ! x in
        if color = ''transparent'' then []
        else drawBead (Some color) (int x) (int y) (int beadSize) showGrid) [0..<width]))
       [0..<height])"

section \<open>\<^verbatim>\<open>processImage\<close>\<close>

text \<open>
  The decoded image: its native size, and \<open>drawn w h\<close>, the bytes that \<^verbatim>\<open>getImageData\<close>
  returns after \<^verbatim>\<open>drawImage(img, 0, 0, w, h)\<close> (the browser's scaling, \<open>4 * w * h\<close> bytes).
  \<open>None\<close> is an image that fails to load. The canvas contexts are taken to exist.
\<close>

record image =
  imgWidth :: nat
  imgHeight :: nat
  drawn :: "nat \<Rightarrow> nat \<Rightarrow> nat list"

record result =
  patternDataUrl :: bitmap
  colorGrid :: "string list list"

definition processImage ::
  "image option \<Rightarrow> nat \<Rightarrow> nat \<Rightarrow> string list \<Rightarrow> bool \<Rightarrow> bool \<Rightarrow> bool \<Rightarrow> real \<Rightarrow> error + result" where
  "processImage img beadSize maxBeads palette showGrid dithering removeBackground
       backgroundThreshold =
     (case img of
        None \<Rightarrow> Inl LoadError
      | Some im \<Rightarrow>
          (case targetDims (imgWidth im) (imgHeight im) maxBeads of (width, height) \<Rightarrow>
             if width = 0 \<or> height = 0 then Inl IndexSizeError
             else
               let data = drawn im width height;
                   transparentPixels =
                     (if removeBackground then floodFill data width height backgroundThreshold
                      else {});
                   isBackground = isBackgroundColor removeBackground transparentPixels width;
                   quantized =
                     (if dithering
                      then ditherRows palette isBackground width height data [0..<height]
                      else plainRows data palette isBackground width [0..<height])
               in (case quantized of
                     Inl e \<Rightarrow> Inl e
                   | Inr grid \<Rightarrow>
                       Inr \<lparr>patternDataUrl =
                              \<lparr>bmWidth = width * beadSize, bmHeight = height * beadSize,
                               ops = (if removeBackground
                                      then [ClearRect 0 0 (int (width * beadSize))
                                              (int (height * beadSize))]
                                      else []) @
                                     drawGrid grid width height beadSize showGrid\<rparr>,
                            colorGrid = grid\<rparr>)))"

section \<open>The palettes\<close>

text \<open>The three palettes of \<^verbatim>\<open>beadPalettes\<close>, as data; the keys are the values of the palette selector.\<close>

datatype paletteName = Standard | Mini | Pastel

definition standardPalette :: "string list" where
  "standardPalette =
    [''#FFFFFF'', ''#F5F5F5'', ''#E0E0E0'', ''#A9A9A9'', ''#696969'', ''#000000'',
     ''#FFE4E1'', ''#FFC0CB'', ''#FF69B4'', ''#FF1493'', ''#DC143C'', ''#FF0000'',
     ''#8B0000'', ''#FFF0F5'', ''#FFDAB9'', ''#FFEFD5'', ''#FFD700'', ''#FFA500'',
     ''#FF8C00'', ''#FF4500'', ''#FFFFE0'', ''#FFFACD'', ''#FFFF00'', ''#FFD700'',
     ''#BDB76B'', ''#F0FFF0'', ''#98FB98'', ''#90EE90'', ''#00FF00'', ''#32CD32'',
     ''#008000'', ''#006400'', ''#2E8B57'', ''#F0FFFF'', ''#E0FFFF'', ''#AFEEEE'',
     ''#00FFFF'', ''#00CED1'', ''#1E90FF'', ''#0000FF'', ''#0000CD'', ''#00008B'',
     ''#191970'', ''#E6E6FA'', ''#D8BFD8'', ''#DDA0DD'', ''#EE82EE'', ''#DA70D6'',
     ''#9370DB'', ''#8A2BE2'', ''#4B0082'']"

definition miniPalette :: "string list" where
  "miniPalette =
    [''#FFFFFF'', ''#E0E0E0'', ''#A9A9A9'', ''#000000'', ''#FFC0CB'', ''#FF69B4'',
     ''#FF0000'', ''#8B0000'', ''#FFDAB9'', ''#FFA500'', ''#FFFF00'', ''#FFD700'',
     ''#98FB98'', ''#00FF00'', ''#008000'', ''#2E8B57'', ''#AFEEEE'', ''#00FFFF'',
     ''#1E90FF'', ''#0000FF'', ''#00008B'', ''#DDA0DD'', ''#EE82EE'', ''#8A2BE2'']"

definition pastelPalette :: "string list" where
  "pastelPalette =
    [''#FFFFFF'', ''#000000'', ''#FFE4E1'', ''#FFC0CB'', ''#FFDAB9'', ''#FFFACD'',
     ''#F0FFF0'', ''#98FB98'', ''#E0FFFF'', ''#AFEEEE'', ''#E6E6FA'', ''#D8BFD8'']"

fun beadPalettes :: "paletteName \<Rightarrow> string list" where
  "beadPalettes Standard = standardPalette"
| "beadPalettes Mini = miniPalette"
| "beadPalettes Pastel = pastelPalette"

section \<open>Grid editor: the state of \<^verbatim>\<open>BeadPatternGenerator\<close>\<close>

datatype tool = Add | Erase | Pick

text \<open>
  The grids in the component state are arrays of row arrays. The handlers copy the outer
  array and write into the rows, so rows are objects in a store: a reference is a
  natural number, \<open>heap\<close> gives the row a reference points to, and \<open>fresh\<close> is the
  next reference that was never used. An outer array is the list of its row references.
\<close>

type_synonym ref = nat

text \<open>A data URL is modelled by what loading it gives: an image, or a failure.\<close>

type_synonym dataUrl = "image option"

record settings =
  beadSize :: nat
  maxBeads :: nat
  selectedPalette :: paletteName
  showGrid :: bool
  dithering :: bool
  removeBackground :: bool
  backgroundThreshold :: real

record editor =
  heap :: "ref \<Rightarrow> string list"
  fresh :: ref
  originalImage :: "dataUrl option"
  beadPattern :: "bitmap option"
  beadColors :: "ref list"
  colorCounts :: "(string \<times> nat) list"
  isEditMode :: bool
  editTool :: tool
  selectedColor :: string
  editedBeadColors :: "ref list"
  hasEdits :: bool
  config :: settings
  patternCanvas :: "bitmap option"

text \<open>The initial values of the \<^verbatim>\<open>useState\<close> and \<^verbatim>\<open>useRef\<close> calls.\<close>

definition initialEditor :: editor where
  "initialEditor =
     \<lparr>heap = (\<lambda>_. []), fresh = 0, originalImage = None, beadPattern = None, beadColors = [],
      colorCounts = [], isEditMode = False, editTool = Add, selectedColor = ''#000000'',
      editedBeadColors = [], hasEdits = False,
      config = \<lparr>beadSize = 10, maxBeads = 29, selectedPalette = Standard, showGrid = True,
                dithering = False, removeBackground = False, backgroundThreshold = 30\<rparr>,
      patternCanvas = None\<rparr>"

text \<open>The grid an outer array denotes in a state.\<close>

definition gridOf :: "editor \<Rightarrow> ref list \<Rightarrow> string list list" where
  "gridOf s refs = map (heap s) refs"

text \<open>New row arrays with the given contents; the result is the new outer array.\<close>

definition allocRows :: "string list list \<Rightarrow> editor \<Rightarrow> ref list \<times> editor" where
  "allocRows rows s =
     ([fresh s..<fresh s + length rows],
      s\<lparr>heap := (\<lambda>r. if fresh s \<le> r \<and> r < fresh s + length rows then rows ! (r - fresh s)
                       else heap s r),
        fresh := fresh s + length rows\<rparr>)"

text \<open>\<^verbatim>\<open>counts[color] = (counts[color] || 0) + 1\<close>, on an object in insertion order.\<close>

fun bump :: "(string \<times> nat) list \<Rightarrow> string \<Rightarrow> (string \<times> nat) list" where
  "bump [] color = [(color, 1)]"
| "bump ((k, n) # rest) color =
     (if k = color then (k, n + 1) # rest else (k, n) # bump rest color)"

text \<open>The two nested counting loops, starting from the empty object.\<close>

definition countColors :: "string list list \<Rightarrow> (string \<times> nat) list" where
  "countColors grid =
     foldl (\<lambda>counts row.
              foldl (\<lambda>counts color. if color \<noteq> ''transparent'' then bump counts color else counts)
                counts row)
       [] grid"

text \<open>
  The redraw common to the canvas effect and \<^verbatim>\<open>generateEditedPattern\<close>: size the canvas
  (which clears it), \<^verbatim>\<open>clearRect\<close>, then one square per bead. Row 0 gives the width.
\<close>

definition redraw :: "string list list \<Rightarrow> nat \<Rightarrow> bool \<Rightarrow> bitmap" where
  "redraw grid cell gridLines =
     (let width = length (grid ! 0); height = length grid in
      \<lparr>bmWidth = width * cell, bmHeight = height * cell,
       ops = ClearRect 0 0 (int (width * cell)) (int (height * cell)) #
             drawGrid grid width height cell gridLines\<rparr>)"

text \<open>
  The body of the processing effect after \<^verbatim>\<open>processImage\<close> has resolved: the rows of
  \<^verbatim>\<open>result.colorGrid\<close> are new arrays, and \<^verbatim>\<open>JSON.parse(JSON.stringify(...))\<close> makes
  new arrays again. In edit mode the canvas effect then draws the new edit buffer.
\<close>

definition onProcessed :: "result \<Rightarrow> editor \<Rightarrow> editor" where
  "onProcessed res s =
     (case allocRows (colorGrid res) s of (gridRefs, s1) \<Rightarrow>
      case allocRows (gridOf s1 gridRefs) s1 of (copyRefs, s2) \<Rightarrow>
        s2\<lparr>beadPattern := Some (patternDataUrl res), beadColors := gridRefs,
           editedBeadColors := copyRefs, hasEdits := False,
           colorCounts := countColors (gridOf s2 gridRefs),
           patternCanvas :=
             (if isEditMode s \<and> copyRefs \<noteq> []
              then Some (redraw (gridOf s2 copyRefs) (beadSize (config s)) (showGrid (config s)))
              else patternCanvas s)\<rparr>)"

text \<open>
  The processing effect, run to its end: nothing without an image, and a rejected
  promise is only logged.
\<close>

definition generate :: "editor \<Rightarrow> editor" where
  "generate s =
     (case originalImage s of
        None \<Rightarrow> s
      | Some url \<Rightarrow>
          (case processImage url (beadSize (config s)) (maxBeads (config s))
                  (beadPalettes (selectedPalette (config s))) (showGrid (config s))
                  (dithering (config s)) (removeBackground (config s))
                  (backgroundThreshold (config s)) of
             Inl e \<Rightarrow> s
           | Inr res \<Rightarrow> onProcessed res s))"

text \<open>The palette selector: \<^verbatim>\<open>setSelectedPalette\<close>, then the effect above.\<close>

definition selectPalette :: "paletteName \<Rightarrow> editor \<Rightarrow> editor" where
  "selectPalette name s = generate (s\<lparr>config := (config s)\<lparr>selectedPalette := name\<rparr>\<rparr>)"

text \<open>
  The Edit button (rendered when there is a pattern and the editor is not in edit mode):
  \<^verbatim>\<open>setIsEditMode(true)\<close>; the next render mounts the canvas, and the canvas effect
  draws the edit buffer on it.
\<close>

definition enterEdit :: "editor \<Rightarrow> editor" where
  "enterEdit s =
     (if beadPattern s = None \<or> isEditMode s then s
      else s\<lparr>isEditMode := True,
             patternCanvas :=
               Some (if editedBeadColors s = [] then \<lparr>bmWidth = 300, bmHeight = 150, ops = []\<rparr>
                     else redraw (gridOf s (editedBeadColors s)) (beadSize (config s))
                            (showGrid (config s)))\<rparr>)"

text \<open>The tool buttons and the colour buttons (palette colours and colours in use).\<close>

definition setEditTool :: "tool \<Rightarrow> editor \<Rightarrow> editor" where
  "setEditTool t s = s\<lparr>editTool := t\<rparr>"

definition clickColor :: "string \<Rightarrow> editor \<Rightarrow> editor" where
  "clickColor color s =
     (if color \<in> set (beadPalettes (selectedPalette (config s))) \<or> color \<in> fst ` set (colorCounts s)
      then s\<lparr>selectedColor := color, editTool := Add\<rparr>
      else s)"

text \<open>
  \<^verbatim>\<open>handlePatternEdit(x, y)\<close>. \<^verbatim>\<open>[...editedBeadColors]\<close> is a new outer array with the
  same rows, so \<^verbatim>\<open>newBeadColors[y][x] = v\<close> writes into a row of the edit buffer. Rows
  have the length of row 0, as in every grid \<^verbatim>\<open>processImage\<close> returns.
\<close>

definition handlePatternEdit :: "int \<Rightarrow> int \<Rightarrow> editor \<Rightarrow> editor" where
  "handlePatternEdit x y s =
     (if editedBeadColors s = [] \<or> \<not> isEditMode s then s
      else
        let width = length (heap s (editedBeadColors s ! 0));
            height = length (editedBeadColors s)
        in if x < 0 \<or> x \<ge> int width \<or> y < 0 \<or> y \<ge> int height then s
           else
             let newBeadColors = editedBeadColors s;
                 row = newBeadColors ! nat y;
                 s1 = (case editTool s of
                         Add \<Rightarrow>
                           s\<lparr>heap := (heap s)(row := (heap s row)[nat x := selectedColor s])\<rparr>
                       | Erase \<Rightarrow>
                           s\<lparr>heap := (heap s)(row := (heap s row)[nat x := ''transparent''])\<rparr>
                       | Pick \<Rightarrow>
                           let pickedColor = heap s row ! nat x in
                           if pickedColor \<noteq> ''transparent''
                           then s\<lparr>selectedColor := pickedColor, editTool := Add\<rparr>
                           else s)
             in s1\<lparr>editedBeadColors := newBeadColors, hasEdits := True\<rparr>)"

text \<open>\<^verbatim>\<open>getBoundingClientRect()\<close> of the canvas: four finite doubles.\<close>

record rect =
  rectLeft :: rat
  rectTop :: rat
  rectWidth :: rat
  rectHeight :: rat

text \<open>\<^verbatim>\<open>xs[i]\<close> for an integer index: \<^verbatim>\<open>undefined\<close> outside the array.\<close>

definition elemAt :: "'a list \<Rightarrow> int \<Rightarrow> 'a option" where
  "elemAt xs i = (if 0 \<le> i \<and> i < int (length xs) then Some (xs ! nat i) else None)"

subsection \<open>The cell under the pointer\<close>

text \<open>
  \<^verbatim>\<open>handleCanvasDraw\<close> computes the cell in IEEE double arithmetic, where a zero
  divisor gives an infinity or NaN and every operation rounds. A double is the rational
  it denotes, an infinity, or NaN; the sign of zero is not kept (the divisors, sizes of
  the rectangle and the bead size, are never negative zero).
\<close>

datatype double = Finite rat | PlusInf | MinusInf | NotNumber

text \<open>
  The double nearest to an exact result: \<open>fl64\<close> in the normal range, multiples of
  \<open>2\<^sup>-\<^sup>1\<^sup>0\<^sup>7\<^sup>4\<close> below it, and an infinity from \<open>2\<^sup>1\<^sup>0\<^sup>2\<^sup>4\<close> on.
\<close>

definition toDouble :: "rat \<Rightarrow> double" where
  "toDouble x =
     (if \<bar>x\<bar> < 2 powi (- 1022)
      then Finite (of_int (roundHalfEven (x / 2 powi (- 1074))) * 2 powi (- 1074))
      else if 2 powi 1024 \<le> \<bar>fl64 x\<bar> then (if 0 < x then PlusInf else MinusInf)
      else Finite (fl64 x))"

fun dsign :: "double \<Rightarrow> int" where
  "dsign (Finite a) = (if 0 < a then 1 else if a < 0 then - 1 else 0)"
| "dsign PlusInf = 1"
| "dsign MinusInf = - 1"
| "dsign NotNumber = 0"

text \<open>The infinity of a sign; NaN for the sign of zero.\<close>

definition infinityOf :: "int \<Rightarrow> double" where
  "infinityOf sg = (if 0 < sg then PlusInf else if sg < 0 then MinusInf else NotNumber)"

text \<open>\<^verbatim>\<open>a * b\<close> and \<^verbatim>\<open>a / b\<close>.\<close>

fun dmul :: "double \<Rightarrow> double \<Rightarrow> double" where
  "dmul NotNumber b = NotNumber"
| "dmul a NotNumber = NotNumber"
| "dmul (Finite a) (Finite b) = toDouble (a * b)"
| "dmul a b = infinityOf (dsign a * dsign b)"

fun ddiv :: "double \<Rightarrow> double \<Rightarrow> double" where
  "ddiv NotNumber b = NotNumber"
| "ddiv a NotNumber = NotNumber"
| "ddiv (Finite a) (Finite b) =
     (if b = 0 then infinityOf (dsign (Finite a)) else toDouble (a / b))"
| "ddiv (Finite a) b = Finite 0"
| "ddiv a (Finite b) = infinityOf (dsign a * (if b < 0 then - 1 else 1))"
| "ddiv a b = NotNumber"

text \<open>The result of \<^verbatim>\<open>Math.floor\<close>: an integer, an infinity, or NaN.\<close>

datatype cell = Cell int | CellPlusInf | CellMinusInf | CellNaN

fun dfloor :: "double \<Rightarrow> cell" where
  "dfloor (Finite a) = Cell \<lfloor>a\<rfloor>"
| "dfloor PlusInf = CellPlusInf"
| "dfloor MinusInf = CellMinusInf"
| "dfloor NotNumber = CellNaN"

fun ofCell :: "cell \<Rightarrow> double" where
  "ofCell (Cell i) = Finite (of_int i)"
| "ofCell CellPlusInf = PlusInf"
| "ofCell CellMinusInf = MinusInf"
| "ofCell CellNaN = NotNumber"

text \<open>
  \<^verbatim>\<open>Math.floor(((client - start) * (canvasSize / rectSize)) / beadSize)\<close>, the
  computation of \<^verbatim>\<open>x\<close> and of \<^verbatim>\<open>y\<close>.
\<close>

definition cellUnder :: "nat \<Rightarrow> rat \<Rightarrow> rat \<Rightarrow> rat \<Rightarrow> nat \<Rightarrow> cell" where
  "cellUnder canvasSize rectSize client start side =
     (let scale = ddiv (Finite (of_nat canvasSize)) (Finite rectSize)
      in dfloor (ddiv (dmul (toDouble (client - start)) scale) (Finite (of_nat side))))"

text \<open>\<^verbatim>\<open>x < 0\<close> and \<^verbatim>\<open>x >= n\<close> on such a number; both are false on NaN.\<close>

fun negative :: "cell \<Rightarrow> bool" where
  "negative (Cell i) = (i < 0)"
| "negative CellMinusInf = True"
| "negative c = False"

fun notBelow :: "cell \<Rightarrow> nat \<Rightarrow> bool" where
  "notBelow (Cell i) n = (int n \<le> i)"
| "notBelow CellPlusInf n = True"
| "notBelow c n = False"

text \<open>
  \<^verbatim>\<open>xs[c]\<close>: an element for an index inside the array, \<^verbatim>\<open>undefined\<close> otherwise (an
  array has no property named \<^verbatim>\<open>Infinity\<close>, \<^verbatim>\<open>-Infinity\<close> or \<^verbatim>\<open>NaN\<close> unless one is
  written).
\<close>

fun elemAtCell :: "'a list \<Rightarrow> cell \<Rightarrow> 'a option" where
  "elemAtCell xs (Cell i) = elemAt xs i"
| "elemAtCell xs c = None"

text \<open>
  What a call of a handler does: it returns, leaving a state; it throws; or it reaches
  \<^verbatim>\<open>newBeadColors[y][NaN]\<close> on a row of the grid, which writes or reads the property
  named \<^verbatim>\<open>NaN\<close> of the row array. That property is not an element of the row and not
  part of the store here, so the model stops there.
\<close>

datatype outcome = Returned editor | Thrown error | NaNProperty

text \<open>
  \<^verbatim>\<open>handlePatternEdit(x, y)\<close> on the numbers \<^verbatim>\<open>Math.floor\<close> returns. An infinity
  fails the bounds check as an integer outside the grid does. NaN passes it, as every
  comparison with NaN is false: then \<^verbatim>\<open>newBeadColors[NaN]\<close> is \<^verbatim>\<open>undefined\<close> and the
  access to its property throws, for each of the three tools.
\<close>

definition handlePatternEditAt :: "cell \<Rightarrow> cell \<Rightarrow> editor \<Rightarrow> outcome" where
  "handlePatternEditAt x y s =
     (case (x, y) of
        (Cell i, Cell j) \<Rightarrow> Returned (handlePatternEdit i j s)
      | _ \<Rightarrow>
          if editedBeadColors s = [] \<or> \<not> isEditMode s then Returned s
          else
            let width = length (heap s (editedBeadColors s ! 0));
                height = length (editedBeadColors s)
            in if negative x \<or> notBelow x width \<or> negative y \<or> notBelow y height then Returned s
               else if y = CellNaN then Thrown TypeError
               else NaNProperty)"

text \<open>
  A call of \<^verbatim>\<open>clearRect\<close>, \<^verbatim>\<open>fillRect\<close> or \<^verbatim>\<open>strokeRect\<close> for the square of a cell: the
  canvas ignores the call when an argument is not finite.
\<close>

definition squareCall ::
  "(int \<Rightarrow> int \<Rightarrow> int \<Rightarrow> int \<Rightarrow> drawOp) \<Rightarrow> cell \<Rightarrow> cell \<Rightarrow> nat \<Rightarrow> drawOp list" where
  "squareCall call x y side =
     (case (dmul (ofCell x) (Finite (of_nat side)), dmul (ofCell y) (Finite (of_nat side))) of
        (Finite ox, Finite oy) \<Rightarrow> [call \<lfloor>ox\<rfloor> \<lfloor>oy\<rfloor> (int side) (int side)]
      | _ \<Rightarrow> [])"

text \<open>
  \<^verbatim>\<open>handleCanvasDraw(clientX, clientY)\<close>, the handler of click, drag and touch on the
  canvas; the coordinates of the pointer and of the rectangle are doubles. After
  \<^verbatim>\<open>handlePatternEdit\<close> it reads \<^verbatim>\<open>editedBeadColors[y][x]\<close> through the outer array of
  the current render, whose rows are the rows just written; reading a property of
  \<^verbatim>\<open>editedBeadColors[y]\<close> throws when that is \<^verbatim>\<open>undefined\<close>. A call that throws
  has set no state before: either \<^verbatim>\<open>handlePatternEdit\<close> threw at its first access to
  the grid, or the row is outside the grid and its bounds check returned first.
\<close>

definition handleCanvasDraw :: "rect \<Rightarrow> rat \<Rightarrow> rat \<Rightarrow> editor \<Rightarrow> outcome" where
  "handleCanvasDraw r clientX clientY s =
     (case patternCanvas s of
        None \<Rightarrow> Returned s
      | Some canvas \<Rightarrow>
          if editedBeadColors s = [] then Returned s
          else
            let side = beadSize (config s);
                x = cellUnder (bmWidth canvas) (rectWidth r) clientX (rectLeft r) side;
                y = cellUnder (bmHeight canvas) (rectHeight r) clientY (rectTop r) side
            in (case handlePatternEditAt x y s of
                  Thrown e \<Rightarrow> Thrown e
                | NaNProperty \<Rightarrow> NaNProperty
                | Returned s1 \<Rightarrow>
                    let cleared = ops canvas @ squareCall ClearRect x y side in
                    if editTool s \<noteq> Erase then
                      (case elemAtCell (editedBeadColors s) y of
                         None \<Rightarrow> Thrown TypeError
                       | Some row \<Rightarrow>
                           let color = elemAtCell (heap s1 row) x in
                           if color \<noteq> Some ''transparent''
                           then Returned (s1\<lparr>patternCanvas :=
                                  Some (canvas\<lparr>ops := cleared @ FillStyle color #
                                          squareCall FillRect x y side @
                                          (if showGrid (config s)
                                           then squareCall StrokeRect x y side else [])\<rparr>)\<rparr>)
                           else Returned (s1\<lparr>patternCanvas := Some (canvas\<lparr>ops := cleared\<rparr>)\<rparr>))
                    else Returned (s1\<lparr>patternCanvas := Some (canvas\<lparr>ops := cleared\<rparr>)\<rparr>)))"

subsection \<open>Apply and Cancel\<close>

text \<open>\<^verbatim>\<open>generateEditedPattern\<close>: redraw the canvas from the edit buffer, publish it as the
  pattern, and count the colours of the edit buffer.\<close>

definition generateEditedPattern :: "editor \<Rightarrow> editor" where
  "generateEditedPattern s =
     (if editedBeadColors s = [] then s
      else case patternCanvas s of
             None \<Rightarrow> s
           | Some canvas \<Rightarrow>
               let grid = gridOf s (editedBeadColors s);
                   canvas' = redraw grid (beadSize (config s)) (showGrid (config s))
               in s\<lparr>patternCanvas := Some canvas', beadPattern := Some canvas',
                    colorCounts := countColors grid\<rparr>)"

text \<open>The Apply and Cancel buttons; leaving edit mode unmounts the canvas.\<close>

definition applyEdits :: "editor \<Rightarrow> editor" where
  "applyEdits s = (generateEditedPattern s)\<lparr>isEditMode := False, patternCanvas := None\<rparr>"

definition cancelEdits :: "editor \<Rightarrow> editor" where
  "cancelEdits s =
     (case allocRows (gridOf s (beadColors s)) s of (copyRefs, s1) \<Rightarrow>
        s1\<lparr>editedBeadColors := copyRefs, hasEdits := False, isEditMode := False,
           patternCanvas := None\<rparr>)"

text \<open>
  The events of an editing session, and a session as a list of events. The canvas effect
  that follows an event which replaced the edit buffer repaints the canvas; it writes to
  the canvas only, and \<^verbatim>\<open>generateEditedPattern\<close> repaints the canvas in full before it
  reads it, so the effect is left out here.
\<close>

datatype event = Tool tool | Color string | Edit int int

fun dispatch :: "editor \<Rightarrow> event \<Rightarrow> editor" where
  "dispatch s (Tool t) = setEditTool t s"
| "dispatch s (Color c) = clickColor c s"
| "dispatch s (Edit x y) = handlePatternEdit x y s"

section \<open>Notions used to state the properties\<close>

text \<open>What a quantised cell at \<open>(x, y)\<close> holds: the sentinel on a background pixel, else a
  palette entry.\<close>

definition cellOk :: "string list \<Rightarrow> (nat \<Rightarrow> nat \<Rightarrow> bool) \<Rightarrow> nat \<Rightarrow> nat \<Rightarrow> string \<Rightarrow> bool" where
  "cellOk palette isBackground x y c \<longleftrightarrow>
     (if isBackground x y then c = ''transparent'' else c \<in> set palette)"

text \<open>The invariant of the colour grid: its dimensions, and what its cells hold.\<close>

definition gridInv :: "string list \<Rightarrow> nat \<Rightarrow> nat \<Rightarrow> string list list \<Rightarrow> bool" where
  "gridInv palette width height grid \<longleftrightarrow>
     length grid = height \<and>
     (\<forall>row\<in>set grid. length row = width \<and>
        (\<forall>c\<in>set row. c = ''transparent'' \<or> c \<in> set palette))"

text \<open>
  The error-diffusion kernel: the weight (in sixteenths) of the neighbour at offset
  \<open>(dx, dy)\<close> from the pixel being quantised.
\<close>

definition kernel :: "int \<Rightarrow> int \<Rightarrow> real option" where
  "kernel dx dy =
     (if dx = 1 \<and> dy = 0 then Some 7
      else if dx = - 1 \<and> dy = 1 then Some 3
      else if dx = 0 \<and> dy = 1 then Some 5
      else if dx = 1 \<and> dy = 1 then Some 1
      else None)"

text \<open>The pixels of a buffer in row-major order.\<close>

definition rowMajor :: "nat \<Rightarrow> nat \<Rightarrow> (nat \<times> nat) list" where
  "rowMajor width height = concat (map (\<lambda>y. map (\<lambda>x. (x, y)) [0..<width]) [0..<height])"

text \<open>
  One pass over a sequence of pixels: the step \<open>ditherCell\<close> at each pixel in turn, on
  the working copy left by the pixels before it. The result is the colours in the order
  of the sequence, and the final working copy.
\<close>

fun ditherSeq ::
  "string list \<Rightarrow> (nat \<Rightarrow> nat \<Rightarrow> bool) \<Rightarrow> nat \<Rightarrow> nat \<Rightarrow> nat list \<Rightarrow> (nat \<times> nat) list
     \<Rightarrow> error + (string list \<times> nat list)" where
  "ditherSeq palette isBackground width height pixels [] = Inr ([], pixels)"
| "ditherSeq palette isBackground width height pixels ((x, y) # rest) =
     (case ditherCell palette isBackground width height pixels x y of
        Inl e \<Rightarrow> Inl e
      | Inr (c, pixels') \<Rightarrow>
          (case ditherSeq palette isBackground width height pixels' rest of
             Inl e \<Rightarrow> Inl e
           | Inr (cs, pixels'') \<Rightarrow> Inr (c # cs, pixels'')))"

subsection \<open>Dithering as the specification words it\<close>

text \<open>
  The dithered mode of the specification, for comparison with \<open>ditherRows\<close>: the
  working copy holds numbers that are never rounded; a share is added as it is; a channel
  is clamped to \<open>[0, 255]\<close> when it is read for the comparison.
\<close>

definition clampRead :: "number \<Rightarrow> number" where
  "clampRead v = (case v of Num x \<Rightarrow> Num (max 0 (min 255 x)) | PosInf \<Rightarrow> Num 255 | NaN \<Rightarrow> NaN)"

definition specChan :: "number list \<Rightarrow> nat \<Rightarrow> number" where
  "specChan buf i = (if i < length buf then clampRead (buf ! i) else NaN)"

definition specAddAt :: "number list \<Rightarrow> nat \<Rightarrow> number \<Rightarrow> number list" where
  "specAddAt buf i v = (if i < length buf then buf[i := nadd (buf ! i) v] else buf)"

definition specSpread ::
  "number list \<Rightarrow> nat \<Rightarrow> number \<times> number \<times> number \<Rightarrow> real \<Rightarrow> number list" where
  "specSpread buf i err k =
     (case err of (errR, errG, errB) \<Rightarrow>
        specAddAt (specAddAt (specAddAt buf i (share errR k)) (i + 1) (share errG k))
          (i + 2) (share errB k))"

definition specDitherCell ::
  "string list \<Rightarrow> (nat \<Rightarrow> nat \<Rightarrow> bool) \<Rightarrow> nat \<Rightarrow> nat \<Rightarrow> number list \<Rightarrow> nat \<Rightarrow> nat
     \<Rightarrow> error + (string \<times> number list)" where
  "specDitherCell palette isBackground width height buf x y =
     (let idx = (y * width + x) * 4;
          r = specChan buf idx;
          g = specChan buf (idx + 1);
          b = specChan buf (idx + 2)
      in if isBackground x y then Inr (''transparent'', buf)
         else case findClosestColor r g b palette of
                None \<Rightarrow> Inl TypeError
              | Some closestColor \<Rightarrow>
                  (case channels closestColor of (cr, cg, cb) \<Rightarrow>
                     let err = (nsub r cr, nsub g cg, nsub b cb);
                         p1 = (if x + 1 < width then specSpread buf (idx + 4) err 7 else buf);
                         p2 = (if y + 1 < height then
                                 let q1 = (if x > 0 then specSpread p1 (idx + 4 * width - 4) err 3
                                           else p1);
                                     q2 = specSpread q1 (idx + 4 * width) err 5
                                 in if x + 1 < width then specSpread q2 (idx + 4 * width + 4) err 1
                                    else q2
                               else p1)
                     in Inr (closestColor, p2)))"

fun specDitherRow ::
  "string list \<Rightarrow> (nat \<Rightarrow> nat \<Rightarrow> bool) \<Rightarrow> nat \<Rightarrow> nat \<Rightarrow> number list \<Rightarrow> nat \<Rightarrow> nat list
     \<Rightarrow> error + (string list \<times> number list)" where
  "specDitherRow palette isBackground width height buf y [] = Inr ([], buf)"
| "specDitherRow palette isBackground width height buf y (x # xs) =
     (case specDitherCell palette isBackground width height buf x y of
        Inl e \<Rightarrow> Inl e
      | Inr (c, buf') \<Rightarrow>
          (case specDitherRow palette isBackground width height buf' y xs of
             Inl e \<Rightarrow> Inl e
           | Inr (row, buf'') \<Rightarrow> Inr (c # row, buf'')))"

fun specDitherRows ::
  "string list \<Rightarrow> (nat \<Rightarrow> nat \<Rightarrow> bool) \<Rightarrow> nat \<Rightarrow> nat \<Rightarrow> number list \<Rightarrow> nat list
     \<Rightarrow> error + string list list" where
  "specDitherRows palette isBackground width height buf [] = Inr []"
| "specDitherRows palette isBackground width height buf (y # ys) =
     (case specDitherRow palette isBackground width height buf y [0..<width] of
        Inl e \<Rightarrow> Inl e
      | Inr (row, buf') \<Rightarrow>
          (case specDitherRows palette isBackground width height buf' ys of
             Inl e \<Rightarrow> Inl e
           | Inr rows \<Rightarrow> Inr (row # rows)))"

section \<open>Example inputs\<close>

text \<open>
  A 5 by 5 image: a white border, a black ring inside it, and one white pixel in the
  centre (index 12), enclosed by the ring.
\<close>

definition ringImage :: "nat list" where
  "ringImage =
     [255, 255, 255, 255,  255, 255, 255, 255,  255, 255, 255, 255,  255, 255, 255, 255,
      255, 255, 255, 255,
      255, 255, 255, 255,  0, 0, 0, 255,  0, 0, 0, 255,  0, 0, 0, 255,  255, 255, 255, 255,
      255, 255, 255, 255,  0, 0, 0, 255,  255, 255, 255, 255,  0, 0, 0, 255,
      255, 255, 255, 255,
      255, 255, 255, 255,  0, 0, 0, 255,  0, 0, 0, 255,  0, 0, 0, 255,  255, 255, 255, 255,
      255, 255, 255, 255,  255, 255, 255, 255,  255, 255, 255, 255,  255, 255, 255, 255,
      255, 255, 255, 255]"

text \<open>Images of one colour: whatever the size they are drawn at, every pixel has it.\<close>

definition uniformImage :: "nat \<Rightarrow> nat \<Rightarrow> nat list \<Rightarrow> image" where
  "uniformImage w h px =
     \<lparr>imgWidth = w, imgHeight = h, drawn = (\<lambda>dw dh. concat (replicate (dw * dh) px))\<rparr>"

definition redPixel :: image where
  "redPixel = uniformImage 1 1 [255, 0, 0, 255]"

text \<open>A grid of one red bead, as \<^verbatim>\<open>processImage\<close> returns it for \<open>redPixel\<close>.\<close>

definition redResult :: result where
  "redResult =
     \<lparr>patternDataUrl =
        \<lparr>bmWidth = 10, bmHeight = 10,
         ops = [FillStyle (Some ''#FF0000''), FillRect 0 0 10 10, StrokeRect 0 0 10 10]\<rparr>,
      colorGrid = [[''#FF0000'']]\<rparr>"

text \<open>The file input: \<^verbatim>\<open>setOriginalImage\<close>, then the processing effect.\<close>

definition upload :: "dataUrl \<Rightarrow> editor \<Rightarrow> editor" where
  "upload url s = generate (s\<lparr>originalImage := Some url\<rparr>)"

text \<open>
  A session that ends with a selected colour from a palette that is no longer the
  selected one: upload, Edit, the red button of the standard palette, then the palette
  selector set to pastel.
\<close>

definition staleColorSession :: editor where
  "staleColorSession =
     selectPalette Pastel (clickColor ''#FF0000'' (enterEdit (upload (Some redPixel) initialEditor)))"

text \<open>A session on one red bead: Edit, then the eraser.\<close>

definition eraserSession :: editor where
  "eraserSession = setEditTool Erase (enterEdit (onProcessed redResult initialEditor))"

text \<open>An image of two pixels in a row, \<open>(3, 1, 0)\<close> and \<open>(1, 0, 0)\<close>, at any size.\<close>

definition twoPixels :: image where
  "twoPixels = \<lparr>imgWidth = 2, imgHeight = 1, drawn = (\<lambda>w h. [3, 1, 0, 255, 1, 0, 0, 255])\<rparr>"

text \<open>Channel \<open>ch\<close> (0 red, 1 green, 2 blue) of a triple.\<close>

definition component :: "rgb \<Rightarrow> nat \<Rightarrow> number" where
  "component c ch = (case c of (r, g, b) \<Rightarrow> if ch = 0 then r else if ch = 1 then g else b)"

section \<open>Nearest colour\<close>

lemmas parse_defs =
  channels_def substring_def substringFrom_def parseInt16_def isWhiteSpace_def hexDigit_def

lemmas num_defs = nsqrt_def nadd_def nsub_def pow2_def

lemma colorDistance_Num:
  assumes "isColor c"
  shows "\<exists>d. colorDistance (Num r) (Num g) (Num b) c = Num d"
  using assms
  by (auto simp: isColor_def colorDistance_def num_defs split: prod.splits number.splits)

lemma best_snoc_keep:
  assumes "best r g b xs i" "\<not> lt (colorDistance r g b c) (colorDistance r g b (xs ! i))"
  shows "best r g b (xs @ [c]) i"
  using assms unfolding best_def
  by (auto simp: nth_append less_Suc_eq)

lemma lt_trans_Num:
  "lt x y \<Longrightarrow> \<not> lt z y \<Longrightarrow> \<exists>d. z = Num d \<Longrightarrow> lt x z"
  by (cases x; cases y; cases z) auto

lemma lt_irrefl_ge: "lt x y \<Longrightarrow> \<not> lt y x"
  by (cases x; cases y) auto

lemma best_snoc_new:
  assumes "best (Num r) (Num g) (Num b) xs i" "lt (colorDistance (Num r) (Num g) (Num b) c) (colorDistance (Num r) (Num g) (Num b) (xs ! i))"
    and "\<forall>x\<in>set xs. isColor x"
  shows "best (Num r) (Num g) (Num b) (xs @ [c]) (length xs)"
proof -
  have num: "\<exists>d. colorDistance (Num r) (Num g) (Num b) (xs ! j) = Num d" if "j < length xs" for j
    using assms(3) that colorDistance_Num by simp
  have "lt (colorDistance (Num r) (Num g) (Num b) c) (colorDistance (Num r) (Num g) (Num b) (xs ! j))" if "j < length xs" for j
  proof -
    have "\<not> lt (colorDistance (Num r) (Num g) (Num b) (xs ! j)) (colorDistance (Num r) (Num g) (Num b) (xs ! i))"
      using assms(1) that by (simp add: best_def)
    then show ?thesis
      using lt_trans_Num[OF assms(2) _ num[OF that]] by blast
  qed
  moreover have "\<not> lt (colorDistance (Num r) (Num g) (Num b) c) (colorDistance (Num r) (Num g) (Num b) c)"
    by (cases "colorDistance (Num r) (Num g) (Num b) c") auto
  ultimately show ?thesis
    unfolding best_def by (auto simp: nth_append less_Suc_eq dest: lt_irrefl_ge)
qed

lemma closestLoop_best:
  assumes "\<forall>x\<in>set (done @ todo). isColor x"
    and "best (Num r) (Num g) (Num b) done i" "cc = Some (done ! i)" "md = colorDistance (Num r) (Num g) (Num b) (done ! i)"
  shows "\<exists>k. best (Num r) (Num g) (Num b) (done @ todo) k \<and>
             closestLoop (Num r) (Num g) (Num b) (md, cc) todo =
               (colorDistance (Num r) (Num g) (Num b) ((done @ todo) ! k), Some ((done @ todo) ! k))"
  using assms
proof (induction todo arbitrary: "done" i cc md)
  case Nil
  then show ?case by auto
next
  case (Cons c todo)
  show ?case
  proof (cases "lt (colorDistance (Num r) (Num g) (Num b) c) md")
    case True
    have b: "best (Num r) (Num g) (Num b) (done @ [c]) (length done)"
      using best_snoc_new[of r g b "done" i c] Cons.prems True by auto
    have "\<exists>k. best (Num r) (Num g) (Num b) ((done @ [c]) @ todo) k \<and>
             closestLoop (Num r) (Num g) (Num b) (colorDistance (Num r) (Num g) (Num b) c, Some c) todo =
               (colorDistance (Num r) (Num g) (Num b) (((done @ [c]) @ todo) ! k), Some (((done @ [c]) @ todo) ! k))"
      by (rule Cons.IH[OF _ b]) (use Cons.prems in auto)
    then show ?thesis using True by simp
  next
    case False
    have b: "best (Num r) (Num g) (Num b) (done @ [c]) i"
      using best_snoc_keep[of "Num r" "Num g" "Num b" "done" i c] Cons.prems False by auto
    have i: "i < length done" using Cons.prems(2) by (simp add: best_def)
    have "\<exists>k. best (Num r) (Num g) (Num b) ((done @ [c]) @ todo) k \<and>
             closestLoop (Num r) (Num g) (Num b) (md, cc) todo =
               (colorDistance (Num r) (Num g) (Num b) (((done @ [c]) @ todo) ! k), Some (((done @ [c]) @ todo) ! k))"
      by (rule Cons.IH[OF _ b]) (use Cons.prems i in \<open>auto simp: nth_append\<close>)
    then show ?thesis using False by simp
  qed
qed

lemma best_single: "isColor c \<Longrightarrow> best (Num r) (Num g) (Num b) [c] 0"
  using colorDistance_Num[of c r g b] by (auto simp: best_def)

lemma findClosestColor_best:
  assumes "palette \<noteq> []" "\<forall>c\<in>set palette. isColor c"
  shows "\<exists>k. best (Num r) (Num g) (Num b) palette k \<and> findClosestColor (Num r) (Num g) (Num b) palette = Some (palette ! k)"
proof -
  obtain c rest where p: "palette = c # rest" using assms(1) by (cases palette) auto
  obtain d where d: "colorDistance (Num r) (Num g) (Num b) c = Num d"
    using colorDistance_Num[of c r g b] assms(2) p by auto
  have step: "closestLoop (Num r) (Num g) (Num b) (PosInf, Some c) palette
      = closestLoop (Num r) (Num g) (Num b) (colorDistance (Num r) (Num g) (Num b) c, Some c) rest"
    by (simp add: p d)
  have "\<exists>k. best (Num r) (Num g) (Num b) ([c] @ rest) k \<and>
             closestLoop (Num r) (Num g) (Num b) (colorDistance (Num r) (Num g) (Num b) c, Some c) rest =
               (colorDistance (Num r) (Num g) (Num b) (([c] @ rest) ! k), Some (([c] @ rest) ! k))"
    by (rule closestLoop_best[where i = 0]) (use assms(2) p best_single in auto)
  then show ?thesis
    using step by (auto simp: findClosestColor_def first_def p)
qed

text \<open>
  Claim C1. For every query colour and every non-empty palette whose entries are colours,
  \<open>findClosestColor\<close> returns the palette entry at some index \<open>i\<close>; its Euclidean
  distance to the query is at most the distance of every palette entry, and every entry
  before \<open>i\<close> is strictly farther away. So of several entries at the minimal distance
  the earliest one is returned, and a duplicate is never chosen over its earlier copy.
\<close>

theorem findClosestColor_nearest:
  assumes "palette \<noteq> []" and "\<forall>c\<in>set palette. isColor c"
  shows "\<exists>i<length palette. \<exists>d.
           findClosestColor (Num r) (Num g) (Num b) palette = Some (palette ! i) \<and>
           colorDistance (Num r) (Num g) (Num b) (palette ! i) = Num d \<and>
           (\<forall>j<length palette. \<exists>e. colorDistance (Num r) (Num g) (Num b) (palette ! j) = Num e \<and> d \<le> e) \<and>
           (\<forall>j<i. \<exists>e. colorDistance (Num r) (Num g) (Num b) (palette ! j) = Num e \<and> d < e)"
proof -
  obtain k where k: "best (Num r) (Num g) (Num b) palette k" "findClosestColor (Num r) (Num g) (Num b) palette = Some (palette ! k)"
    using findClosestColor_best[OF assms] by blast
  have num: "\<exists>e. colorDistance (Num r) (Num g) (Num b) (palette ! j) = Num e" if "j < length palette" for j
    using assms(2) that colorDistance_Num by simp
  obtain d where d: "colorDistance (Num r) (Num g) (Num b) (palette ! k) = Num d"
    using num[of k] k(1) by (auto simp: best_def)
  have "\<exists>e. colorDistance (Num r) (Num g) (Num b) (palette ! j) = Num e \<and> d \<le> e" if jl: "j < length palette" for j
  proof -
    obtain e where e: "colorDistance (Num r) (Num g) (Num b) (palette ! j) = Num e" using num[OF jl] by blast
    have "\<not> lt (Num e) (Num d)" using k(1) jl e d by (auto simp: best_def)
    then show ?thesis using e by auto
  qed
  moreover have "\<exists>e. colorDistance (Num r) (Num g) (Num b) (palette ! j) = Num e \<and> d < e" if jk: "j < k" for j
  proof -
    have jl: "j < length palette" using jk k(1) by (simp add: best_def)
    obtain e where e: "colorDistance (Num r) (Num g) (Num b) (palette ! j) = Num e" using num[OF jl] by blast
    have "lt (Num d) (Num e)" using k(1) jk e d by (auto simp: best_def)
    then show ?thesis using e by auto
  qed
  ultimately show ?thesis using k d by (auto simp: best_def)
qed


text \<open>
  The statement for the query \<open>(250, 210, 0)\<close> on a palette that lists its nearest
  colour twice.
\<close>

theorem findClosestColor_nearest_witness:
  "\<exists>i<length [''#FFD700'', ''#FFA500'', ''#FFD700'']. \<exists>d.
     findClosestColor (Num 250) (Num 210) (Num 0) [''#FFD700'', ''#FFA500'', ''#FFD700'']
       = Some ([''#FFD700'', ''#FFA500'', ''#FFD700''] ! i) \<and>
     colorDistance (Num 250) (Num 210) (Num 0) ([''#FFD700'', ''#FFA500'', ''#FFD700''] ! i) = Num d \<and>
     (\<forall>j<length [''#FFD700'', ''#FFA500'', ''#FFD700'']. \<exists>e.
        colorDistance (Num 250) (Num 210) (Num 0) ([''#FFD700'', ''#FFA500'', ''#FFD700''] ! j) = Num e
        \<and> d \<le> e) \<and>
     (\<forall>j<i. \<exists>e.
        colorDistance (Num 250) (Num 210) (Num 0) ([''#FFD700'', ''#FFA500'', ''#FFD700''] ! j) = Num e
        \<and> d < e)"
  using findClosestColor_nearest [of "[''#FFD700'', ''#FFA500'', ''#FFD700'']" 250 210 0]
  by (simp add: isColor_def parse_defs)

section \<open>Resampler\<close>

lemma binExponent_bounds:
  assumes "0 < x"
  shows "2 powi (binExponent x) \<le> x \<and> x < 2 powi (binExponent x + 1)"
proof -
  obtain a b where q: "quotient_of x = (a, b)" by (cases "quotient_of x")
  have b: "0 < b" using quotient_of_denom_pos[OF q] .
  have x: "x = of_int a / of_int b" using quotient_of_div[OF q] .
  have a: "0 < a" using assms b x by (simp add: zero_less_divide_iff)
  define la where "la = bitlen a"
  define lb where "lb = bitlen b"
  have la: "2 ^ nat (la - 1) \<le> a" "a < 2 ^ nat la" using bitlen_bounds[OF a] by (auto simp: la_def)
  have lb: "2 ^ nat (lb - 1) \<le> b" "b < 2 ^ nat lb" using bitlen_bounds[OF b] by (auto simp: lb_def)
  have la1: "1 \<le> la" using la a by (cases "la \<le> 0") auto
  have lb1: "1 \<le> lb" using lb b by (cases "lb \<le> 0") auto
  have ra: "(2::rat) powi (la - 1) \<le> of_int a" "(of_int a :: rat) < 2 powi la"
  proof -
    have "(of_int (2 ^ nat (la - 1)) :: rat) \<le> of_int a" using la(1) by (simp only: of_int_le_iff)
    then show "(2::rat) powi (la - 1) \<le> of_int a" using la1 by (simp add: power_int_nonneg_exp)
    have "(of_int a :: rat) < of_int (2 ^ nat la)" using la(2) by (simp only: of_int_less_iff)
    then show "(of_int a :: rat) < 2 powi la" using la1 by (simp add: power_int_nonneg_exp)
  qed
  have rb: "(2::rat) powi (lb - 1) \<le> of_int b" "(of_int b :: rat) < 2 powi lb"
  proof -
    have "(of_int (2 ^ nat (lb - 1)) :: rat) \<le> of_int b" using lb(1) by (simp only: of_int_le_iff)
    then show "(2::rat) powi (lb - 1) \<le> of_int b" using lb1 by (simp add: power_int_nonneg_exp)
    have "(of_int b :: rat) < of_int (2 ^ nat lb)" using lb(2) by (simp only: of_int_less_iff)
    then show "(of_int b :: rat) < 2 powi lb" using lb1 by (simp add: power_int_nonneg_exp)
  qed
  have bpos: "(0::rat) < of_int b" using b by simp
  have lo: "(2::rat) powi (la - lb - 1) \<le> x"
  proof -
    have "(2::rat) powi (la - lb - 1) * of_int b \<le> 2 powi (la - lb - 1) * 2 powi lb"
      using rb(2) by (intro mult_left_mono) auto
    also have "\<dots> = 2 powi (la - 1)" by (simp add: power_int_add[symmetric])
    also have "\<dots> \<le> of_int a" using ra(1) .
    finally show ?thesis using bpos by (simp add: x pos_le_divide_eq)
  qed
  have hi: "x < (2::rat) powi (la - lb + 1)"
  proof -
    have "of_int a < (2::rat) powi la" using ra(2) .
    also have "\<dots> = 2 powi (la - lb + 1) * 2 powi (lb - 1)" by (simp add: power_int_add[symmetric])
    also have "\<dots> \<le> 2 powi (la - lb + 1) * of_int b"
      using rb(1) by (intro mult_left_mono) auto
    finally show ?thesis using bpos by (simp add: x pos_divide_less_eq)
  qed
  show ?thesis
  proof (cases "2 powi (la - lb) \<le> x")
    case True
    then have "binExponent x = la - lb" by (simp add: binExponent_def q la_def lb_def)
    then show ?thesis using True hi by simp
  next
    case False
    then have "binExponent x = la - lb - 1" by (simp add: binExponent_def q la_def lb_def)
    then show ?thesis using False lo by simp
  qed
qed

lemma binExponent_unique:
  assumes "0 < x" "2 powi e \<le> x" "x < 2 powi (e + 1)"
  shows "binExponent x = e"
proof -
  define k where "k = binExponent x"
  have k: "2 powi k \<le> x" "x < 2 powi (k + 1)" using binExponent_bounds[OF assms(1)] by (auto simp: k_def)
  have 1: "k < e + 1"
  proof (rule ccontr)
    assume "\<not> k < e + 1"
    then have "(2::rat) powi (e + 1) \<le> 2 powi k" by (intro power_int_increasing) auto
    then show False using k(1) assms(3) by simp
  qed
  have 2: "e < k + 1"
  proof (rule ccontr)
    assume "\<not> e < k + 1"
    then have "(2::rat) powi (k + 1) \<le> 2 powi e" by (intro power_int_increasing) auto
    then show False using k(2) assms(2) by simp
  qed
  show ?thesis using 1 2 by (simp add: k_def)
qed

lemma roundHalfEven_err: "\<bar>of_int (roundHalfEven y) - y\<bar> \<le> 1 / 2"
proof -
  have "of_int \<lfloor>y\<rfloor> \<le> y" "y < of_int \<lfloor>y\<rfloor> + 1" by linarith+
  then show ?thesis by (auto simp: roundHalfEven_def Let_def)
qed

lemma fl64_pos:
  assumes "0 < x"
  shows "fl64 x = of_int (roundHalfEven (x / 2 powi (binExponent x - 52))) * 2 powi (binExponent x - 52)"
  using assms by (simp add: fl64_def Let_def)

lemma fl64_error:
  assumes "0 < x"
  shows "\<bar>fl64 x - x\<bar> \<le> x / 2 ^ 53"
proof -
  define e where "e = binExponent x"
  define u :: rat where "u = 2 powi (e - 52)"
  have u: "0 < u" by (simp add: u_def)
  have "fl64 x - x = (of_int (roundHalfEven (x / u)) - x / u) * u"
    using u by (simp add: fl64_pos[OF assms] e_def u_def algebra_simps)
  then have "\<bar>fl64 x - x\<bar> = \<bar>of_int (roundHalfEven (x / u)) - x / u\<bar> * u"
    using u by (simp add: abs_mult)
  also have "\<dots> \<le> (1 / 2) * u"
    using roundHalfEven_err[of "x / u"] u by (intro mult_right_mono) auto
  also have "\<dots> = 2 powi e / 2 ^ 53"
    by (simp add: u_def power_int_diff)
  also have "\<dots> \<le> x / 2 ^ 53"
    using binExponent_bounds[OF assms] by (simp add: e_def divide_right_mono)
  finally show ?thesis .
qed

lemma fl64_eval:
  assumes "0 < x" "2 powi e \<le> x" "x < 2 powi (e + 1)"
  shows "fl64 x = of_int (roundHalfEven (x / 2 powi (e - 52))) * 2 powi (e - 52)"
  using fl64_pos[OF assms(1)] binExponent_unique[OF assms] by simp

lemma fl64_gt0:
  assumes "0 < x"
  shows "0 < fl64 x"
proof -
  have "x / 2 ^ 53 < x" using assms by (simp add: divide_less_eq)
  then show ?thesis using fl64_error[OF assms] by linarith
qed

lemma scaled_error:
  fixes s m l :: nat
  assumes "0 < s" "0 < m" "0 < l" "s * m < 2 ^ 50"
  defines "q \<equiv> (of_nat s * of_nat m / of_nat l :: rat)"
  defines "y \<equiv> fl64 (of_nat s * fl64 (of_nat m / of_nat l))"
  shows "0 < y" and "\<bar>y - q\<bar> < 1 / (2 * of_nat l)"
proof -
  define q0 :: rat where "q0 = of_nat m / of_nat l"
  define x where "x = fl64 q0"
  have q0: "0 < q0" using assms(2,3) by (simp add: q0_def)
  have x: "0 < x" using fl64_gt0[OF q0] by (simp add: x_def)
  have ex: "\<bar>x - q0\<bar> \<le> q0 / 2 ^ 53" using fl64_error[OF q0] by (simp add: x_def)
  have sx: "(0::rat) < of_nat s * x" using x assms(1) by simp
  have y: "y = fl64 (of_nat s * x)" by (simp add: y_def x_def q0_def)
  show "0 < y" using fl64_gt0[OF sx] y by simp
  have ey: "\<bar>y - of_nat s * x\<bar> \<le> of_nat s * x / 2 ^ 53" using fl64_error[OF sx] y by simp
  have q: "q = of_nat s * q0" by (simp add: q_def q0_def)
  have qpos: "0 < q" using q0 assms(1) by (simp add: q)
  have "q0 / 2 ^ 53 \<le> q0" using q0 by (simp add: divide_le_eq)
  then have x2: "x \<le> 2 * q0" using ex by linarith
  have "y - q = (y - of_nat s * x) + of_nat s * (x - q0)" by (simp add: q algebra_simps)
  then have "\<bar>y - q\<bar> \<le> \<bar>y - of_nat s * x\<bar> + \<bar>of_nat s * (x - q0)\<bar>"
    using abs_triangle_ineq[of "y - of_nat s * x" "of_nat s * (x - q0)"] by simp
  also have "\<dots> = \<bar>y - of_nat s * x\<bar> + of_nat s * \<bar>x - q0\<bar>"
    by (simp add: abs_mult)
  also have "\<dots> \<le> of_nat s * x / 2 ^ 53 + of_nat s * (q0 / 2 ^ 53)"
    using ey ex by (intro add_mono mult_left_mono) auto
  also have "\<dots> \<le> of_nat s * (2 * q0) / 2 ^ 53 + of_nat s * (q0 / 2 ^ 53)"
    using x2 by (intro add_mono divide_right_mono mult_left_mono) auto
  also have "\<dots> = 3 * q / 2 ^ 53" by (simp add: q)
  also have "\<dots> < 1 / (2 * of_nat l)"
  proof -
    have "(of_nat (s * m) :: rat) < of_nat (2 ^ 50)" using assms(4) by (simp only: of_nat_less_iff)
    then have sm: "(of_nat s * of_nat m :: rat) < 2 ^ 50" by simp
    have "3 * q / 2 ^ 53 = (3 * (of_nat s * of_nat m) / 2 ^ 52) * (1 / (2 * of_nat l))"
      by (simp add: q_def)
    also have "\<dots> < 1 * (1 / (2 * of_nat l))"
      using sm assms(3) by (intro mult_strict_right_mono) auto
    finally show ?thesis by simp
  qed
  finally show "\<bar>y - q\<bar> < 1 / (2 * of_nat l)" .
qed

lemma nearest_from_close:
  fixes N D r :: int and y :: rat
  assumes D: "0 < D"
    and close: "\<bar>y - of_int N / (2 * of_int D)\<bar> < 1 / (2 * of_int D)"
    and fl: "of_int r \<le> y + 1 / 2" "y + 1 / 2 < of_int r + 1"
  shows "\<bar>2 * D * r - N\<bar> \<le> D"
proof -
  have Dr: "(0::rat) < of_int D" using D by simp
  have c1: "of_int N - 1 < y * (2 * of_int D)" "y * (2 * of_int D) < of_int N + 1"
    using close Dr by (auto simp: abs_less_iff field_simps)
  have f1: "of_int r * (2 * of_int D) \<le> y * (2 * of_int D) + of_int D"
    using mult_right_mono[OF fl(1), of "2 * of_int D"] Dr by (simp add: algebra_simps)
  have f2: "y * (2 * of_int D) + of_int D < (of_int r + 1) * (2 * of_int D)"
    using mult_strict_right_mono[OF fl(2), of "2 * of_int D"] Dr by (simp add: algebra_simps)
  have "(of_int (2 * D * r) :: rat) < of_int (N + 1 + D)"
    using f1 c1(2) by (simp add: algebra_simps)
  then have a: "2 * D * r < N + 1 + D" by (simp only: of_int_less_iff)
  have "(of_int (N - 1 + D) :: rat) < of_int (2 * D * r + 2 * D)"
    using f2 c1(1) by (simp add: algebra_simps)
  then have b: "N - 1 + D < 2 * D * r + 2 * D" by (simp only: of_int_less_iff)
  show ?thesis using a b by linarith
qed

lemma round_scaled:
  fixes s m l :: nat
  assumes "0 < s" "0 < m" "0 < l" "s * m < 2 ^ 50"
  defines "r \<equiv> mathRound (fl64 (of_nat s * fl64 (of_nat m / of_nat l)))"
  shows "0 \<le> r" and "\<bar>of_int r - (of_nat s * of_nat m / of_nat l :: rat)\<bar> \<le> 1 / 2"
proof -
  define y where "y = fl64 (of_nat s * fl64 (of_nat m / of_nat l))"
  have ypos: "0 < y" and close: "\<bar>y - of_nat s * of_nat m / of_nat l\<bar> < 1 / (2 * of_nat l)"
    using scaled_error[OF assms(1-4)] by (simp_all add: y_def)
  have r: "r = \<lfloor>y + 1 / 2\<rfloor>" by (simp add: r_def y_def mathRound_def)
  have fl: "of_int r \<le> y + 1 / 2" "y + 1 / 2 < of_int r + 1" unfolding r by linarith+
  show "0 \<le> r" unfolding r using ypos by simp
  have "\<bar>y - of_int (2 * int s * int m) / (2 * of_int (int l))\<bar> < 1 / (2 * of_int (int l))"
    using close by simp
  then have "\<bar>2 * int l * r - 2 * int s * int m\<bar> \<le> int l"
    using nearest_from_close[of "int l" y "2 * int s * int m" r] fl assms(3) by simp
  then have "(of_int \<bar>2 * int l * r - 2 * int s * int m\<bar> :: rat) \<le> of_int (int l)"
    by (simp only: of_int_le_iff)
  then have "\<bar>2 * of_nat l * of_int r - 2 * of_nat s * of_nat m\<bar> \<le> (of_nat l :: rat)"
    by simp
  moreover have "of_int r - (of_nat s * of_nat m / of_nat l :: rat)
      = (2 * of_nat l * of_int r - 2 * of_nat s * of_nat m) / (2 * of_nat l)"
    using assms(3) by (simp add: field_simps)
  ultimately show "\<bar>of_int r - (of_nat s * of_nat m / of_nat l :: rat)\<bar> \<le> 1 / 2"
    using assms(3) by (simp add: divide_le_eq)
qed

text \<open>
  Claim C2, with the rounding the code performs. For positive native dimensions and a
  positive \<open>maxCells\<close> (the shorter axis times \<open>maxCells\<close> below \<open>2\<^sup>5\<^sup>0\<close>): when the
  longer native axis is within \<open>maxCells\<close> both dimensions are returned unchanged;
  otherwise the longer output axis is \<open>maxCells\<close> and the shorter one is an integer
  within \<open>1/2\<close> of the shorter native axis scaled by the same ratio. No lower bound of
  one cell is applied to it.
\<close>

theorem targetDims_scaled:
  assumes "0 < w" "0 < h" "0 < maxCells" "min w h * maxCells < 2 ^ 50"
  shows "\<exists>W H. targetDims w h maxCells = (W, H) \<and>
           (max w h \<le> maxCells \<longrightarrow> W = w \<and> H = h) \<and>
           (maxCells < max w h \<and> h < w \<longrightarrow>
              W = maxCells \<and> \<bar>of_nat H - (of_nat h * of_nat maxCells / of_nat w :: rat)\<bar> \<le> 1 / 2) \<and>
           (maxCells < max w h \<and> w \<le> h \<longrightarrow>
              H = maxCells \<and> \<bar>of_nat W - (of_nat w * of_nat maxCells / of_nat h :: rat)\<bar> \<le> 1 / 2)"
proof (cases "h < w")
  case True
  then have b: "h * maxCells < 2 ^ 50" using assms(4) by (simp add: min_def)
  show ?thesis
    using True round_scaled[OF assms(2,3,1) b]
    by (auto simp: targetDims_def Let_def max_def)
next
  case False
  then have b: "w * maxCells < 2 ^ 50" using assms(4) by (simp add: min_def)
  show ?thesis
    using False round_scaled[OF assms(1,3,2) b]
    by (auto simp: targetDims_def Let_def max_def)
qed

text \<open>The example of the specification: a 20 by 10 image at 10 cells becomes 10 by 5.\<close>

theorem targetDims_scaled_witness: "targetDims 20 10 10 = (10, 5)"
proof -
  obtain W H where t: "targetDims 20 10 10 = (W, H)" "W = 10"
      "\<bar>of_nat H - (of_nat 10 * of_nat 10 / of_nat 20 :: rat)\<bar> \<le> 1 / 2"
    using targetDims_scaled[of 20 10 10] by auto
  have "\<bar>rat_of_nat H - 5\<bar> \<le> 1 / 2" using t(3) by simp
  then have "rat_of_nat H < rat_of_nat 6" "rat_of_nat 4 < rat_of_nat H" by linarith+
  then have "H < 6" "4 < H" by (simp_all only: of_nat_less_iff)
  then have "H = 5" by simp
  then show ?thesis using t by simp
qed

lemma floor_rat_numeral:
  "\<lfloor>numeral a / numeral b :: rat\<rfloor> = numeral a div numeral b"
  using floor_divide_of_int_eq[of "numeral a" "numeral b", where ?'a = rat] by simp

lemmas fl_eval = roundHalfEven_def Let_def floor_rat_numeral

lemma fl_1_100: "fl64 (1 / 100) = 5764607523034235 / 576460752303423488"
  by (subst fl64_eval[where e = "-7"]) (simp_all add: fl_eval)

lemma fl_x: "fl64 (5764607523034235 / 576460752303423488) = 5764607523034235 / 576460752303423488"
  by (subst fl64_eval[where e = "-7"]) (simp_all add: fl_eval)

text \<open>
  Claim C2 as worded gives the shorter axis a minimum of 1. The code has none: a 1000 by
  1 image at 10 cells gets the height \<open>Math.round(0.01) = 0\<close>.
\<close>

theorem targetDims_no_minimum: "targetDims 1000 1 10 = (10, 0)"
  by (simp add: targetDims_def fl_1_100 fl_x mathRound_def floor_rat_numeral)

section \<open>Background segmentation: the flood fill finds the border-connected pixels\<close>

lemma idx_inj:
  fixes w :: nat
  assumes "x < w" "x' < w" "y * w + x = y' * w + x'"
  shows "x = x' \<and> y = y'"
proof -
  have a: "(y * w + x) mod w = x" using assms(1) by simp
  have b: "(y' * w + x') mod w = x'" using assms(2) by simp
  have x: "x = x'" using a b assms(3) by metis
  have c: "(y * w + x) div w = y" using assms(1) by simp
  have d: "(y' * w + x') div w = y'" using assms(2) by simp
  have "y = y'" using c d assms(3) by metis
  then show ?thesis using x by simp
qed

lemma chain_snoc:
  "chain ok (ps @ [q]) \<longleftrightarrow> chain ok ps \<and> ok q \<and> (ps \<noteq> [] \<longrightarrow> adjacent (last ps) q)"
  by (induction ok ps rule: chain.induct) auto

lemma reachable_border: "border w h p \<Longrightarrow> ok p \<Longrightarrow> reachable ok w h p"
  unfolding reachable_def by (rule exI[of _ "[p]"]) simp

lemma reachable_step:
  assumes "reachable ok w h p" "adjacent p q" "ok q"
  shows "reachable ok w h q"
proof -
  obtain ps where ps: "ps \<noteq> []" "border w h (hd ps)" "last ps = p" "chain ok ps"
    using assms(1) unfolding reachable_def by blast
  have "ps @ [q] \<noteq> [] \<and> border w h (hd (ps @ [q])) \<and> last (ps @ [q]) = q \<and> chain ok (ps @ [q])"
    using ps assms(2,3) by (simp add: chain_snoc)
  then show ?thesis unfolding reachable_def by blast
qed

lemma adjacent_sym: "adjacent p q \<Longrightarrow> adjacent q p"
  by (auto simp: adjacent_def split: prod.splits)

lemma neighbours_in:
  assumes "(x', y') \<in> set (neighbours w h x y)" "x < w" "y < h"
  shows "x' < w \<and> y' < h \<and> adjacent (x, y) (x', y')"
  using assms by (auto simp: neighbours_def adjacent_def split: if_splits)

lemma neighbours_complete:
  assumes "x < w" "y < h" "x' < w" "y' < h" "adjacent (x, y) (x', y')"
  shows "(x', y') \<in> set (neighbours w h x y)"
  using assms by (auto simp: neighbours_def adjacent_def)

lemma floodInvI:
  assumes "\<And>i. i \<in> T \<Longrightarrow> i \<in> V \<and> sim i \<and>
        (\<exists>x y. x < w \<and> y < h \<and> i = y * w + x \<and>
           reachable (\<lambda>(x, y). x < w \<and> y < h \<and> sim (y * w + x)) w h (x, y))"
    and "\<And>i. i \<in> V \<Longrightarrow> sim i \<Longrightarrow> i \<in> T"
    and "\<And>x y. (x, y) \<in> set Q \<Longrightarrow> x < w \<and> y < h \<and>
        (border w h (x, y) \<or>
         (\<exists>x' y'. x' < w \<and> y' < h \<and> adjacent (x', y') (x, y) \<and> y' * w + x' \<in> T))"
    and "\<And>x y. border w h (x, y) \<Longrightarrow> y * w + x \<in> V \<or> (x, y) \<in> set Q"
    and "\<And>x y x' y'. x < w \<Longrightarrow> y < h \<Longrightarrow> y * w + x \<in> T \<Longrightarrow> x' < w \<Longrightarrow> y' < h \<Longrightarrow>
        adjacent (x, y) (x', y') \<Longrightarrow> y' * w + x' \<in> V \<or> (x', y') \<in> set Q"
  shows "floodInv sim w h Q V T"
  unfolding floodInv_def using assms by (intro conjI ballI allI impI) (fast+)

lemma floodInvD1:
  "floodInv sim w h Q V T \<Longrightarrow> i \<in> T \<Longrightarrow> i \<in> V \<and> sim i \<and>
        (\<exists>x y. x < w \<and> y < h \<and> i = y * w + x \<and>
           reachable (\<lambda>(x, y). x < w \<and> y < h \<and> sim (y * w + x)) w h (x, y))"
  unfolding floodInv_def by fast

lemma floodInvD2: "floodInv sim w h Q V T \<Longrightarrow> i \<in> V \<Longrightarrow> sim i \<Longrightarrow> i \<in> T"
  unfolding floodInv_def by fast

lemma floodInvD3:
  "floodInv sim w h Q V T \<Longrightarrow> (x, y) \<in> set Q \<Longrightarrow> x < w \<and> y < h \<and>
        (border w h (x, y) \<or>
         (\<exists>x' y'. x' < w \<and> y' < h \<and> adjacent (x', y') (x, y) \<and> y' * w + x' \<in> T))"
  unfolding floodInv_def by fast

lemma floodInvD4:
  "floodInv sim w h Q V T \<Longrightarrow> border w h (x, y) \<Longrightarrow> y * w + x \<in> V \<or> (x, y) \<in> set Q"
  unfolding floodInv_def by fast

lemma floodInvD5:
  "floodInv sim w h Q V T \<Longrightarrow> x < w \<Longrightarrow> y < h \<Longrightarrow> y * w + x \<in> T \<Longrightarrow> x' < w \<Longrightarrow> y' < h \<Longrightarrow>
        adjacent (x, y) (x', y') \<Longrightarrow> y' * w + x' \<in> V \<or> (x', y') \<in> set Q"
  unfolding floodInv_def by fast

lemma floodInv_skip:
  assumes inv: "floodInv sim w h ((x, y) # Q) V T" and v: "y * w + x \<in> V"
  shows "floodInv sim w h Q V T"
proof (rule floodInvI, goal_cases)
  case (1 i)
  then show ?case using floodInvD1[OF inv] by blast
next
  case (2 i)
  then show ?case using floodInvD2[OF inv] by blast
next
  case (3 a b)
  then show ?case using floodInvD3[OF inv, of a b] by simp
next
  case (4 a b)
  then show ?case using floodInvD4[OF inv, of a b] v by auto
next
  case (5 a b a' b')
  then show ?case using floodInvD5[OF inv, of a b a' b'] v by auto
qed

lemma floodInv_reject:
  assumes inv: "floodInv sim w h ((x, y) # Q) V T" and ns: "\<not> sim (y * w + x)"
  shows "floodInv sim w h Q (insert (y * w + x) V) T"
proof (rule floodInvI, goal_cases)
  case (1 i)
  then show ?case using floodInvD1[OF inv] by blast
next
  case (2 i)
  then show ?case using floodInvD2[OF inv] ns by blast
next
  case (3 a b)
  then show ?case using floodInvD3[OF inv, of a b] by simp
next
  case (4 a b)
  then show ?case using floodInvD4[OF inv, of a b] by auto
next
  case (5 a b a' b')
  then show ?case using floodInvD5[OF inv, of a b a' b'] by auto
qed

lemma floodInv_accept:
  assumes inv: "floodInv sim w h ((x, y) # Q) V T" and s: "sim (y * w + x)"
  shows "floodInv sim w h (Q @ neighbours w h x y) (insert (y * w + x) V) (insert (y * w + x) T)"
proof (rule floodInvI, goal_cases)
  case (1 i)
  have xy: "x < w" "y < h" using floodInvD3[OF inv, of x y] by simp_all
  let ?ok = "\<lambda>(x, y). x < w \<and> y < h \<and> sim (y * w + x)"
  have okxy: "?ok (x, y)" using xy s by simp
  have "reachable ?ok w h (x, y)"
  proof -
    consider "border w h (x, y)"
      | x' y' where "x' < w" "y' < h" "adjacent (x', y') (x, y)" "y' * w + x' \<in> T"
      using floodInvD3[OF inv, of x y] by auto
    then show ?thesis
    proof cases
      case 1
      then show ?thesis using reachable_border[of w h "(x, y)" ?ok] okxy by blast
    next
      case 2
      obtain a b where ab: "a < w" "b < h" "y' * w + x' = b * w + a" "reachable ?ok w h (a, b)"
        using floodInvD1[OF inv 2(4)] by blast
      have "x' = a \<and> y' = b" using idx_inj[OF 2(1) ab(1) ab(3)] .
      then have "reachable ?ok w h (x', y')" using ab(4) by simp
      then show ?thesis using reachable_step[of ?ok w h "(x', y')" "(x, y)"] 2(3) okxy by blast
    qed
  qed
  then have new: "\<exists>a b. a < w \<and> b < h \<and> y * w + x = b * w + a \<and> reachable ?ok w h (a, b)"
    using xy by blast
  show ?case
  proof (cases "i = y * w + x")
    case True
    then show ?thesis using s new by simp
  next
    case False
    then have "i \<in> T" using 1 by simp
    then show ?thesis using floodInvD1[OF inv, of i] by blast
  qed
next
  case (2 i)
  then show ?case using floodInvD2[OF inv] by blast
next
  case (3 a b)
  have xy: "x < w" "y < h" using floodInvD3[OF inv, of x y] by simp_all
  show ?case
  proof (cases "(a, b) \<in> set Q")
    case True
    then show ?thesis using floodInvD3[OF inv, of a b] by auto
  next
    case False
    then have "(a, b) \<in> set (neighbours w h x y)" using 3 by simp
    then have "a < w \<and> b < h \<and> adjacent (x, y) (a, b)" using neighbours_in xy by blast
    then show ?thesis using xy by blast
  qed
next
  case (4 a b)
  then show ?case using floodInvD4[OF inv, of a b] by auto
next
  case (5 a b a' b')
  have xy: "x < w" "y < h" using floodInvD3[OF inv, of x y] by simp_all
  show ?case
  proof (cases "b * w + a = y * w + x")
    case True
    then have "a = x \<and> b = y" using idx_inj[OF 5(1) xy(1)] by blast
    then have "(a', b') \<in> set (neighbours w h x y)"
      using neighbours_complete[OF xy 5(4,5)] 5(6) by simp
    then show ?thesis by simp
  next
    case False
    then have "b * w + a \<in> T" using 5(3) by simp
    then show ?thesis using floodInvD5[OF inv 5(1,2) _ 5(4,5,6)] by auto
  qed
qed

lemma floodLoop_inv:
  assumes "floodInv (\<lambda>i. lt (colorDiff data bg i) t) w h Q V T"
  shows "\<exists>V'. floodInv (\<lambda>i. lt (colorDiff data bg i) t) w h [] V' (floodLoop data bg t w h Q V T)"
  using assms
proof (induction data bg t w h Q V T rule: floodLoop.induct)
  case (1 data bg bgThreshold width height visited transparentPixels)
  then show ?case by auto
next
  case (2 data bg bgThreshold width height x y queue visited transparentPixels)
  let ?i = "y * width + x"
  show ?case
  proof (cases "?i \<in> visited")
    case True
    then show ?thesis using "2.IH"(1)[OF refl True floodInv_skip[OF "2.prems" True]] by (simp add: Let_def)
  next
    case nv: False
    show ?thesis
    proof (cases "lt (colorDiff data bg ?i) bgThreshold")
      case True
      have "floodInv (\<lambda>i. lt (colorDiff data bg i) bgThreshold) width height
              (queue @ neighbours width height x y) (insert ?i visited) (insert ?i transparentPixels)"
        using floodInv_accept[OF "2.prems"] True by blast
      then show ?thesis using "2.IH"(2)[OF refl nv True] nv True by (simp add: Let_def)
    next
      case False
      have "floodInv (\<lambda>i. lt (colorDiff data bg i) bgThreshold) width height
              queue (insert ?i visited) transparentPixels"
        using floodInv_reject[OF "2.prems"] False by blast
      then show ?thesis using "2.IH"(3)[OF refl nv False] nv False by (simp add: Let_def)
    qed
  qed
qed

lemma borderQueue_set:
  assumes "0 < w" "0 < h"
  shows "set (borderQueue w h) = {p. border w h p}"
proof (rule set_eqI)
  fix p :: "nat \<times> nat"
  obtain x y where p: "p = (x, y)" by (cases p)
  show "p \<in> set (borderQueue w h) \<longleftrightarrow> p \<in> {p. border w h p}"
    using assms unfolding p borderQueue_def border_def
    by (cases "y = 0"; cases "y = h - 1") auto
qed

lemma floodInv_init:
  assumes "0 < w" "0 < h"
  shows "floodInv sim w h (borderQueue w h) {} {}"
proof (rule floodInvI, goal_cases)
  case (3 x y)
  then have "border w h (x, y)" using borderQueue_set[OF assms] by auto
  then show ?case by (auto simp: border_def)
next
  case (4 x y)
  then show ?case using borderQueue_set[OF assms] by auto
qed simp_all

lemma floodInv_final:
  assumes inv: "floodInv sim w h [] V T"
  shows "i \<in> T \<longleftrightarrow>
     (\<exists>x y. x < w \<and> y < h \<and> i = y * w + x \<and>
        reachable (\<lambda>(x, y). x < w \<and> y < h \<and> sim (y * w + x)) w h (x, y))"
proof
  assume "i \<in> T"
  then show "\<exists>x y. x < w \<and> y < h \<and> i = y * w + x \<and>
        reachable (\<lambda>(x, y). x < w \<and> y < h \<and> sim (y * w + x)) w h (x, y)"
    using floodInvD1[OF inv] by blast
next
  let ?ok = "\<lambda>(x, y). x < w \<and> y < h \<and> sim (y * w + x)"
  have key: "ps \<noteq> [] \<Longrightarrow> border w h (hd ps) \<Longrightarrow> chain ?ok ps
      \<Longrightarrow> (case last ps of (x, y) \<Rightarrow> y * w + x \<in> T)" for ps
  proof (induction ps rule: rev_induct)
    case Nil
    then show ?case by simp
  next
    case (snoc q ps)
    obtain x y where q: "q = (x, y)" by (cases q)
    have okq: "x < w" "y < h" "sim (y * w + x)"
      using snoc.prems(3) by (simp_all add: chain_snoc q)
    have "y * w + x \<in> V"
    proof (cases "ps = []")
      case True
      then have "border w h (x, y)" using snoc.prems(2) q by simp
      then show ?thesis using floodInvD4[OF inv, of x y] by simp
    next
      case False
      then have c: "chain ?ok ps" "adjacent (last ps) q" "border w h (hd ps)"
        using snoc.prems by (simp_all add: chain_snoc)
      obtain a b where l: "last ps = (a, b)" by (cases "last ps")
      have "?ok (last ps)"
        using c(1) False by (induction ps rule: rev_induct) (simp_all add: chain_snoc)
      then have ab: "a < w" "b < h" using l by simp_all
      have "b * w + a \<in> T" using snoc.IH[OF False c(3) c(1)] l by simp
      then show ?thesis
        using floodInvD5[OF inv ab _ okq(1,2)] c(2) l q by simp
    qed
    then show ?case using floodInvD2[OF inv _ okq(3)] q by simp
  qed
  assume "\<exists>x y. x < w \<and> y < h \<and> i = y * w + x \<and> reachable ?ok w h (x, y)"
  then obtain x y ps where "i = y * w + x" "ps \<noteq> []" "border w h (hd ps)"
      "last ps = (x, y)" "chain ?ok ps"
    unfolding reachable_def by blast
  then show "i \<in> T" using key[of ps] by simp
qed

text \<open>
  Claim C3. On a buffer of positive dimensions, an index is in the set of transparent
  pixels exactly when it is the index of a pixel reachable from a border pixel through a
  4-connected chain of pixels (both ends included) each of whose normalised distance to
  the seed colour is strictly less than \<open>threshold / 100\<close>.
\<close>

theorem floodFill_reachable:
  assumes "0 < width" "0 < height"
  shows "idx \<in> floodFill data width height threshold \<longleftrightarrow>
     (\<exists>x y. x < width \<and> y < height \<and> idx = y * width + x \<and>
        reachable
          (withinThreshold data (backgroundColor data width height)
             (Num (threshold / 100)) width height)
          width height (x, y))"
proof -
  let ?bg = "backgroundColor data width height"
  let ?t = "Num (threshold / 100)"
  let ?sim = "\<lambda>i. lt (colorDiff data ?bg i) ?t"
  have ok: "withinThreshold data ?bg ?t width height
      = (\<lambda>(x, y). x < width \<and> y < height \<and> ?sim (y * width + x))"
    by (auto simp: withinThreshold_def fun_eq_iff)
  obtain V' where "floodInv ?sim width height [] V'
      (floodLoop data ?bg ?t width height (borderQueue width height) {} {})"
    using floodLoop_inv[OF floodInv_init[OF assms, of ?sim]] by blast
  then show ?thesis
    using floodInv_final[of ?sim width height V' _ idx]
    by (simp add: floodFill_def Let_def ok)
qed

section \<open>Quantizer: success and the cells of the grid\<close>

lemma closestLoop_member:
  "snd (closestLoop r g b (m, cc) xs) = cc \<or> snd (closestLoop r g b (m, cc) xs) \<in> Some ` set xs"
  by (induction xs arbitrary: m cc) (auto simp: Let_def)

lemma findClosestColor_member:
  assumes "palette \<noteq> []"
  shows "\<exists>c\<in>set palette. findClosestColor r g b palette = Some c"
proof -
  obtain c rest where p: "palette = c # rest" using assms by (cases palette) auto
  show ?thesis
    using closestLoop_member[of r g b PosInf "Some c" palette]
    by (auto simp: findClosestColor_def first_def p)
qed

lemma findClosestColor_empty: "findClosestColor r g b [] = None"
  by (simp add: findClosestColor_def first_def)

lemma plainCell_ok:
  assumes "palette \<noteq> []"
  shows "\<exists>c. plainCell data palette isBg width x y = Inr c \<and> cellOk palette isBg x y c"
proof -
  obtain c where "c \<in> set palette"
      "findClosestColor (chan data ((y * width + x) * 4)) (chan data ((y * width + x) * 4 + 1))
         (chan data ((y * width + x) * 4 + 2)) palette = Some c"
    using findClosestColor_member[OF assms] by blast
  then show ?thesis by (simp add: plainCell_def Let_def cellOk_def)
qed

lemma plainRow_ok:
  assumes "palette \<noteq> []"
  shows "\<exists>row. plainRow data palette isBg width y xs = Inr row \<and> length row = length xs \<and>
           (\<forall>i<length xs. cellOk palette isBg (xs ! i) y (row ! i))"
proof (induction xs)
  case Nil
  then show ?case by simp
next
  case (Cons x xs)
  obtain c where c: "plainCell data palette isBg width x y = Inr c" "cellOk palette isBg x y c"
    using plainCell_ok[OF assms] by blast
  obtain row where row: "plainRow data palette isBg width y xs = Inr row" "length row = length xs"
      "\<forall>i<length xs. cellOk palette isBg (xs ! i) y (row ! i)"
    using Cons.IH by blast
  show ?case using c row by (auto simp: less_Suc_eq_0_disj)
qed

lemma plainRows_ok:
  assumes "palette \<noteq> []"
  shows "\<exists>rows. plainRows data palette isBg width ys = Inr rows \<and> length rows = length ys \<and>
           (\<forall>j<length ys. length (rows ! j) = width \<and>
              (\<forall>i<width. cellOk palette isBg i (ys ! j) (rows ! j ! i)))"
proof (induction ys)
  case Nil
  then show ?case by simp
next
  case (Cons y ys)
  obtain row where row: "plainRow data palette isBg width y [0..<width] = Inr row"
      "length row = width" "\<forall>i<width. cellOk palette isBg i y (row ! i)"
    using plainRow_ok[OF assms, of data isBg width y "[0..<width]"] by auto
  obtain rows where rows: "plainRows data palette isBg width ys = Inr rows"
      "length rows = length ys"
      "\<forall>j<length ys. length (rows ! j) = width \<and>
              (\<forall>i<width. cellOk palette isBg i (ys ! j) (rows ! j ! i))"
    using Cons.IH by blast
  show ?case using row rows by (auto simp: less_Suc_eq_0_disj)
qed

lemma ditherCell_ok:
  assumes "palette \<noteq> []"
  shows "\<exists>c p. ditherCell palette isBg width height pixels x y = Inr (c, p) \<and>
           cellOk palette isBg x y c"
proof (cases "isBg x y")
  case True
  then show ?thesis by (simp add: ditherCell_def Let_def cellOk_def)
next
  case False
  obtain c where c: "c \<in> set palette"
      "findClosestColor (chan pixels ((y * width + x) * 4)) (chan pixels ((y * width + x) * 4 + 1))
         (chan pixels ((y * width + x) * 4 + 2)) palette = Some c"
    using findClosestColor_member[OF assms] by blast
  show ?thesis using False c
    by (cases "channels c") (simp add: ditherCell_def Let_def cellOk_def)
qed

lemma ditherRow_ok:
  assumes "palette \<noteq> []"
  shows "\<exists>row p. ditherRow palette isBg width height pixels y xs = Inr (row, p) \<and>
           length row = length xs \<and>
           (\<forall>i<length xs. cellOk palette isBg (xs ! i) y (row ! i))"
proof (induction xs arbitrary: pixels)
  case Nil
  then show ?case by simp
next
  case (Cons x xs)
  obtain c p where c: "ditherCell palette isBg width height pixels x y = Inr (c, p)"
      "cellOk palette isBg x y c"
    using ditherCell_ok[OF assms] by blast
  obtain row p' where row: "ditherRow palette isBg width height p y xs = Inr (row, p')"
      "length row = length xs" "\<forall>i<length xs. cellOk palette isBg (xs ! i) y (row ! i)"
    using Cons.IH by blast
  show ?case using c row by (auto simp: less_Suc_eq_0_disj)
qed

lemma ditherRows_ok:
  assumes "palette \<noteq> []"
  shows "\<exists>rows. ditherRows palette isBg width height pixels ys = Inr rows \<and>
           length rows = length ys \<and>
           (\<forall>j<length ys. length (rows ! j) = width \<and>
              (\<forall>i<width. cellOk palette isBg i (ys ! j) (rows ! j ! i)))"
proof (induction ys arbitrary: pixels)
  case Nil
  then show ?case by simp
next
  case (Cons y ys)
  obtain row p where row: "ditherRow palette isBg width height pixels y [0..<width] = Inr (row, p)"
      "length row = width" "\<forall>i<width. cellOk palette isBg i y (row ! i)"
    using ditherRow_ok[OF assms, of isBg width height pixels y "[0..<width]"] by auto
  obtain rows where rows: "ditherRows palette isBg width height p ys = Inr rows"
      "length rows = length ys"
      "\<forall>j<length ys. length (rows ! j) = width \<and>
              (\<forall>i<width. cellOk palette isBg i (ys ! j) (rows ! j ! i))"
    using Cons.IH by blast
  show ?case using row rows by (auto simp: less_Suc_eq_0_disj)
qed

lemma sqrt_lt_iff:
  fixes d c :: real
  assumes "0 \<le> c"
  shows "sqrt d < c \<longleftrightarrow> d < c\<^sup>2"
proof -
  have "sqrt (c\<^sup>2) = c" using assms by simp
  then have "sqrt d < c \<longleftrightarrow> sqrt d < sqrt (c\<^sup>2)" by simp
  then show ?thesis by (simp only: real_sqrt_less_iff)
qed

lemma normalised_lt_iff:
  fixes d t :: real
  assumes "0 \<le> d"
  shows "sqrt d / (255 * sqrt 3) < t \<longleftrightarrow> 0 < t \<and> d < 195075 * t\<^sup>2"
proof -
  have s3: "0 < sqrt (3::real)" by simp
  have a: "sqrt d / (255 * sqrt 3) < t \<longleftrightarrow> sqrt d < t * (255 * sqrt 3)"
    using s3 by (simp add: pos_divide_less_eq)
  show ?thesis
  proof (cases "0 < t")
    case True
    then have "0 \<le> t * (255 * sqrt 3)" by simp
    then have "sqrt d < t * (255 * sqrt 3) \<longleftrightarrow> d < (t * (255 * sqrt 3))\<^sup>2"
      by (rule sqrt_lt_iff)
    also have "(t * (255 * sqrt 3))\<^sup>2 = 195075 * t\<^sup>2" by (simp add: power2_eq_square)
    finally show ?thesis using a True by simp
  next
    case False
    then have "t * (255 * sqrt 3) \<le> 0" using s3 by (simp add: mult_le_0_iff)
    moreover have "0 \<le> sqrt d" using assms by simp
    ultimately have "\<not> sqrt d < t * (255 * sqrt 3)" by linarith
    then show ?thesis using a False by simp
  qed
qed

lemma lt_colorDiff_eval:
  "lt (ndiv (nsqrt (Num d)) (Num (255 * sqrt 3))) (Num t)
     \<longleftrightarrow> (if 0 \<le> d then 0 < t \<and> d < 195075 * t\<^sup>2 else sqrt d / (255 * sqrt 3) < t)"
  using normalised_lt_iff[of d t] by (simp add: ndiv_def nsqrt_def)


lemmas flood_eval =
  chan_def colorDiff_def borderQueue_def neighbours_def Let_def
  nsub_def nadd_def pow2_def lt_colorDiff_eval upt_conv_Cons

lemma ringImage_seed: "backgroundColor ringImage 5 5 = (Num 255, Num 255, Num 255)"
  by (simp add: ringImage_def backgroundColor_def samplePoints_def pixelColor_def chan_def Let_def)

lemma ringImage_fill:
  "0 \<in> floodFill ringImage 5 5 30" "12 \<notin> floodFill ringImage 5 5 30"
  unfolding floodFill_def ringImage_seed Let_def
  by (simp_all add: ringImage_def flood_eval power2_eq_square)

text \<open>
  The statement on \<open>ringImage\<close> at threshold 30: the border pixel 0 is removed and is
  reachable; the enclosed centre pixel 12 has the border colour, is not reachable, and
  stays.
\<close>

theorem floodFill_reachable_witness:
  "0 \<in> floodFill ringImage 5 5 30 \<and>
   12 \<notin> floodFill ringImage 5 5 30 \<and>
   (\<exists>x y. x < 5 \<and> y < 5 \<and> 0 = y * 5 + x \<and>
      reachable (withinThreshold ringImage (backgroundColor ringImage 5 5) (Num (30 / 100)) 5 5)
        5 5 (x, y)) \<and>
   \<not> reachable (withinThreshold ringImage (backgroundColor ringImage 5 5) (Num (30 / 100)) 5 5)
       5 5 (2, 2)"
proof -
  let ?R = "reachable
    (withinThreshold ringImage (backgroundColor ringImage 5 5) (Num (30 / 100)) 5 5) 5 5"
  have a: "\<exists>x y. x < 5 \<and> y < 5 \<and> (0::nat) = y * 5 + x \<and> ?R (x, y)"
    using floodFill_reachable[of 5 5 0 ringImage 30] ringImage_fill(1) by simp
  have "\<not> (\<exists>x y. x < 5 \<and> y < 5 \<and> (12::nat) = y * 5 + x \<and> ?R (x, y))"
    using floodFill_reachable[of 5 5 12 ringImage 30] ringImage_fill(2) by simp
  then have "\<not> ((2::nat) < 5 \<and> (2::nat) < 5 \<and> (12::nat) = 2 * 5 + 2 \<and> ?R (2, 2))"
    by blast
  then have b: "\<not> ?R (2, 2)" by simp
  show ?thesis using a b ringImage_fill by blast
qed

lemma colorDiff_not_negative: "\<not> lt (colorDiff data bg idx) (Num 0)"
proof -
  obtain br bgg bb where bg: "bg = (br, bgg, bb)" by (cases bg)
  have sq: "pow2 v = NaN \<or> (\<exists>d\<ge>0. pow2 v = Num d)" for v
    by (cases v) (simp_all add: pow2_def)
  have add: "nadd u v = NaN \<or> (\<exists>d\<ge>0. nadd u v = Num d)"
    if "u = NaN \<or> (\<exists>d\<ge>0. u = Num d)" "v = NaN \<or> (\<exists>d\<ge>0. v = Num d)" for u v
    using that by (cases u; cases v) (auto simp: nadd_def)
  define r where "r = chan data (idx * 4)"
  define g where "g = chan data (idx * 4 + 1)"
  define b where "b = chan data (idx * 4 + 2)"
  define sum where "sum = nadd (nadd (pow2 (nsub r br)) (pow2 (nsub g bgg))) (pow2 (nsub b bb))"
  have "sum = NaN \<or> (\<exists>d\<ge>0. sum = Num d)"
    unfolding sum_def by (intro add sq)
  moreover have "\<not> sqrt d / (255 * sqrt 3) < 0" if "0 \<le> d" for d :: real
    using that by (simp add: not_less)
  ultimately have "\<not> lt (ndiv (nsqrt sum) (Num (255 * sqrt 3))) (Num 0)"
    by (auto simp: ndiv_def nsqrt_def)
  then show ?thesis
    by (simp add: colorDiff_def bg Let_def r_def g_def b_def sum_def)
qed

lemma floodLoop_none:
  assumes "\<And>i. \<not> lt (colorDiff data bg i) t"
  shows "floodLoop data bg t w h Q V T = T"
  using assms
  by (induction data bg t w h Q V T rule: floodLoop.induct) (simp_all add: Let_def)

lemma floodFill_zero: "floodFill data w h 0 = {}"
  by (simp add: floodFill_def Let_def floodLoop_none colorDiff_not_negative)

section \<open>The whole pipeline: zero threshold, empty palette\<close>

lemma processImage_ok:
  assumes "palette \<noteq> []" "targetDims (imgWidth im) (imgHeight im) cells = (w, h)"
    "0 < w" "0 < h"
  shows "\<exists>res. processImage (Some im) px cells palette lines dith rb t = Inr res \<and>
           length (colorGrid res) = h \<and>
           (\<forall>y<h. length (colorGrid res ! y) = w \<and>
              (\<forall>x<w. cellOk palette
                  (isBackgroundColor rb (if rb then floodFill (drawn im w h) w h t else {}) w)
                  x y (colorGrid res ! y ! x)))"
proof -
  let ?isBg = "isBackgroundColor rb (if rb then floodFill (drawn im w h) w h t else {}) w"
  let ?q = "if dith then ditherRows palette ?isBg w h (drawn im w h) [0..<h]
            else plainRows (drawn im w h) palette ?isBg w [0..<h]"
  obtain rows where rows: "?q = Inr rows" "length rows = h"
      "\<forall>j<h. length (rows ! j) = w \<and> (\<forall>i<w. cellOk palette ?isBg i j (rows ! j ! i))"
  proof (cases dith)
    case True
    then show ?thesis
      using ditherRows_ok[OF assms(1), of ?isBg w h "drawn im w h" "[0..<h]"] that by auto
  next
    case False
    then show ?thesis
      using plainRows_ok[OF assms(1), of "drawn im w h" ?isBg w "[0..<h]"] that by auto
  qed
  have "\<exists>res. processImage (Some im) px cells palette lines dith rb t = Inr res \<and>
      colorGrid res = rows"
    using assms(2,3,4) rows(1) by (simp add: processImage_def Let_def)
  then show ?thesis using rows(2,3) by auto
qed

text \<open>
  Claim C10. With background removal enabled and threshold 0 the set of transparent
  pixels is empty whatever the buffer, and (on a non-empty palette that does not hold the
  sentinel) generation succeeds with a grid of the resampled dimensions none of whose
  cells is \<^verbatim>\<open>transparent\<close>, with or without dithering.
\<close>

theorem zero_threshold_keeps_everything:
  assumes "palette \<noteq> []" "''transparent'' \<notin> set palette"
    and "targetDims (imgWidth im) (imgHeight im) cells = (w, h)" "0 < w" "0 < h"
  shows "floodFill (drawn im w h) w h 0 = {} \<and>
         (\<exists>res. processImage (Some im) px cells palette lines dith True 0 = Inr res \<and>
            length (colorGrid res) = h \<and>
            (\<forall>y<h. length (colorGrid res ! y) = w \<and>
               (\<forall>x<w. colorGrid res ! y ! x \<noteq> ''transparent'')))"
proof -
  obtain res where res: "processImage (Some im) px cells palette lines dith True 0 = Inr res"
      "length (colorGrid res) = h"
      "\<forall>y<h. length (colorGrid res ! y) = w \<and>
              (\<forall>x<w. cellOk palette
                  (isBackgroundColor True (if True then floodFill (drawn im w h) w h 0 else {}) w)
                  x y (colorGrid res ! y ! x))"
    using processImage_ok[OF assms(1,3,4,5), of px lines dith True 0] by blast
  have "colorGrid res ! y ! x \<noteq> ''transparent''" if "y < h" "x < w" for x y
  proof -
    have "cellOk palette (isBackgroundColor True {} w) x y (colorGrid res ! y ! x)"
      using res(3) that by (simp add: floodFill_zero)
    then have "colorGrid res ! y ! x \<in> set palette"
      by (simp add: cellOk_def isBackgroundColor_def)
    then show ?thesis using assms(2) by auto
  qed
  then show ?thesis using res floodFill_zero by blast
qed

lemma plainRow_error: "plainRow data palette isBg w y xs = Inl e \<Longrightarrow> e = TypeError"
  by (induction xs arbitrary: e)
     (auto simp: plainCell_def Let_def split: if_splits option.splits sum.splits)

lemma plainRow_empty:
  assumes "\<exists>x\<in>set xs. \<not> isBg x y"
  shows "plainRow data [] isBg w y xs = Inl TypeError"
  using assms
proof (induction xs)
  case Nil
  then show ?case by simp
next
  case (Cons x xs)
  show ?case
  proof (cases "isBg x y")
    case True
    then have "plainRow data [] isBg w y xs = Inl TypeError" using Cons by auto
    then show ?thesis using True by (simp add: plainCell_def Let_def)
  next
    case False
    then show ?thesis by (simp add: plainCell_def Let_def findClosestColor_empty)
  qed
qed

lemma plainRows_empty:
  assumes "y \<in> set ys" "x < w" "\<not> isBg x y"
  shows "plainRows data [] isBg w ys = Inl TypeError"
  using assms(1)
proof (induction ys)
  case Nil
  then show ?case by simp
next
  case (Cons a ys)
  show ?case
  proof (cases "plainRow data [] isBg w a [0..<w]")
    case (Inl e)
    then show ?thesis using plainRow_error[OF Inl] by simp
  next
    case (Inr row)
    have "a \<noteq> y"
    proof
      assume "a = y"
      moreover have "\<exists>x\<in>set [0..<w]. \<not> isBg x y"
        using assms(2,3) by (intro bexI[of _ x]) simp_all
      ultimately have "plainRow data [] isBg w a [0..<w] = Inl TypeError"
        using plainRow_empty[of "[0..<w]" isBg y data w] by simp
      then show False using Inr by simp
    qed
    then have "plainRows data [] isBg w ys = Inl TypeError" using Cons by auto
    then show ?thesis using Inr by simp
  qed
qed

lemma ditherCell_empty:
  "ditherCell [] isBg w h pixels x y =
     (if isBg x y then Inr (''transparent'', pixels) else Inl TypeError)"
  by (simp add: ditherCell_def Let_def findClosestColor_empty)

lemma ditherRow_empty:
  "ditherRow [] isBg w h pixels y xs =
     (if \<exists>x\<in>set xs. \<not> isBg x y then Inl TypeError
      else Inr (replicate (length xs) ''transparent'', pixels))"
  by (induction xs arbitrary: pixels) (auto simp: ditherCell_empty)

lemma ditherRows_empty:
  assumes "y \<in> set ys" "x < w" "\<not> isBg x y"
  shows "ditherRows [] isBg w h pixels ys = Inl TypeError"
  using assms(1)
proof (induction ys arbitrary: pixels)
  case Nil
  then show ?case by simp
next
  case (Cons a ys)
  show ?case
  proof (cases "\<exists>x\<in>set [0..<w]. \<not> isBg x a")
    case True
    then show ?thesis by (simp add: ditherRow_empty)
  next
    case False
    have "a \<noteq> y"
    proof
      assume "a = y"
      moreover have "\<exists>x\<in>set [0..<w]. \<not> isBg x y"
        using assms(2,3) by (intro bexI[of _ x]) simp_all
      ultimately show False using False by simp
    qed
    then have "ditherRows [] isBg w h pixels ys = Inl TypeError" using Cons by auto
    then show ?thesis using False by (simp add: ditherRow_empty)
  qed
qed

text \<open>
  Claim C9. With the empty palette, for an image that has at least one cell that is not
  background, \<^verbatim>\<open>processImage\<close> fails as a whole: the promise is rejected with the
  \<^verbatim>\<open>TypeError\<close>, and neither a bitmap nor a colour grid is returned, with or without
  dithering and background removal.
\<close>

theorem empty_palette_fails:
  assumes "targetDims (imgWidth im) (imgHeight im) cells = (w, h)" "x < w" "y < h"
    and "\<not> isBackgroundColor rb (if rb then floodFill (drawn im w h) w h t else {}) w x y"
  shows "processImage (Some im) px cells [] lines dith rb t = Inl TypeError"
proof -
  let ?isBg = "isBackgroundColor rb (if rb then floodFill (drawn im w h) w h t else {}) w"
  have y: "y \<in> set [0..<h]" using assms(3) by simp
  have "(if dith then ditherRows [] ?isBg w h (drawn im w h) [0..<h]
         else plainRows (drawn im w h) [] ?isBg w [0..<h]) = Inl TypeError"
    using ditherRows_empty[of y "[0..<h]" x w ?isBg h "drawn im w h"]
      plainRows_empty[of y "[0..<h]" x w ?isBg "drawn im w h"] y assms(2,4) by simp
  moreover have "w \<noteq> 0" "h \<noteq> 0" using assms(2,3) by auto
  ultimately show ?thesis using assms(1) by (simp add: processImage_def Let_def)
qed

lemma redPixel_dims: "targetDims (imgWidth redPixel) (imgHeight redPixel) 29 = (1, 1)"
  by (simp add: redPixel_def uniformImage_def targetDims_def)

text \<open>The statement on the one red pixel.\<close>

theorem zero_threshold_keeps_everything_witness:
  "floodFill (drawn redPixel 1 1) 1 1 0 = {} \<and>
   (\<exists>res. processImage (Some redPixel) 10 29 [''#FF0000'', ''#0000FF''] True False True 0
            = Inr res \<and>
      length (colorGrid res) = 1 \<and>
      (\<forall>y<1. length (colorGrid res ! y) = 1 \<and>
         (\<forall>x<1. colorGrid res ! y ! x \<noteq> ''transparent'')))"
  using zero_threshold_keeps_everything
    [of "[''#FF0000'', ''#0000FF'']" redPixel 29 1 1 10 True False] redPixel_dims
  by simp

text \<open>The statement on the one red pixel, with dithering.\<close>

theorem empty_palette_fails_witness:
  "processImage (Some redPixel) 10 29 [] True True False 30 = Inl TypeError"
  using empty_palette_fails[of redPixel 29 1 1 0 0 False 30 10 True True] redPixel_dims
  by (simp add: isBackgroundColor_def)

section \<open>Grid editor: the edit buffer and the generated grid\<close>

lemma allocRows_grid:
  assumes "allocRows rows s = (refs, s')"
  shows "gridOf s' refs = rows" "refs = [fresh s..<fresh s + length rows]"
    "fresh s' = fresh s + length rows"
    "\<And>r. r \<notin> set refs \<Longrightarrow> heap s' r = heap s r"
proof -
  show refs: "refs = [fresh s..<fresh s + length rows]" using assms by (auto simp: allocRows_def)
  show "fresh s' = fresh s + length rows" using assms by (auto simp: allocRows_def)
  show "heap s' r = heap s r" if "r \<notin> set refs" for r
    using assms that by (auto simp: allocRows_def)
  have "map (heap s') [fresh s..<fresh s + length rows] = rows"
    using assms by (auto simp: allocRows_def intro!: nth_equalityI)
  then show "gridOf s' refs = rows" by (simp add: gridOf_def refs)
qed

lemma handlePatternEdit_frame:
  "beadColors (handlePatternEdit x y s) = beadColors s \<and>
   editedBeadColors (handlePatternEdit x y s) = editedBeadColors s \<and>
   fresh (handlePatternEdit x y s) = fresh s \<and>
   beadPattern (handlePatternEdit x y s) = beadPattern s \<and>
   isEditMode (handlePatternEdit x y s) = isEditMode s \<and>
   (\<forall>r. r \<notin> set (editedBeadColors s) \<longrightarrow> heap (handlePatternEdit x y s) r = heap s r)"
proof (cases "editedBeadColors s = [] \<or> \<not> isEditMode s \<or> x < 0 \<or>
    x \<ge> int (length (heap s (editedBeadColors s ! 0))) \<or> y < 0 \<or>
    y \<ge> int (length (editedBeadColors s))")
  case True
  then show ?thesis by (auto simp: handlePatternEdit_def Let_def)
next
  case False
  then have "nat y < length (editedBeadColors s)" by auto
  then have "editedBeadColors s ! nat y \<in> set (editedBeadColors s)" by simp
  then show ?thesis using False
    by (cases "editTool s") (auto simp: handlePatternEdit_def Let_def)
qed

lemma dispatch_frame:
  "beadColors (dispatch s e) = beadColors s \<and>
   editedBeadColors (dispatch s e) = editedBeadColors s \<and>
   fresh (dispatch s e) = fresh s \<and>
   beadPattern (dispatch s e) = beadPattern s \<and>
   isEditMode (dispatch s e) = isEditMode s \<and>
   (\<forall>r. r \<notin> set (editedBeadColors s) \<longrightarrow> heap (dispatch s e) r = heap s r)"
proof (cases e)
  case (Edit x y)
  then show ?thesis using handlePatternEdit_frame[of x y s] by simp
qed (simp_all add: setEditTool_def clickColor_def)

lemma session_frame:
  "beadColors (foldl dispatch s es) = beadColors s \<and>
   editedBeadColors (foldl dispatch s es) = editedBeadColors s \<and>
   fresh (foldl dispatch s es) = fresh s \<and>
   beadPattern (foldl dispatch s es) = beadPattern s \<and>
   isEditMode (foldl dispatch s es) = isEditMode s \<and>
   (\<forall>r. r \<notin> set (editedBeadColors s) \<longrightarrow> heap (foldl dispatch s es) r = heap s r)"
proof (induction es arbitrary: s)
  case Nil
  then show ?case by simp
next
  case (Cons e es)
  show ?case using Cons[of "dispatch s e"] dispatch_frame[of s e] by simp
qed

lemma onProcessed_grids:
  fixes res s
  defines "s' \<equiv> onProcessed res s"
  shows "gridOf s' (beadColors s') = colorGrid res"
    "gridOf s' (editedBeadColors s') = colorGrid res"
    "set (beadColors s') \<inter> set (editedBeadColors s') = {}"
    "beadPattern s' = Some (patternDataUrl res)"
    "colorCounts s' = countColors (colorGrid res)"
    "\<forall>r\<in>set (beadColors s'). r < fresh s'"
proof -
  obtain r1 s1 where a1: "allocRows (colorGrid res) s = (r1, s1)"
    by (cases "allocRows (colorGrid res) s")
  obtain r2 s2 where a2: "allocRows (gridOf s1 r1) s1 = (r2, s2)"
    by (cases "allocRows (gridOf s1 r1) s1")
  note f1 = allocRows_grid[OF a1]
  note f2 = allocRows_grid[OF a2]
  have g1: "gridOf s1 r1 = colorGrid res" using f1(1) .
  have disj: "set r1 \<inter> set r2 = {}" using f1(2,3) f2(2) by auto
  have "gridOf s2 r1 = gridOf s1 r1"
    unfolding gridOf_def using f2(4) disj by (intro map_cong) auto
  then have g2: "gridOf s2 r1 = colorGrid res" using g1 by simp
  have g3: "gridOf s2 r2 = colorGrid res" using f2(1) g1 by simp
  have s': "s' = s2\<lparr>beadPattern := Some (patternDataUrl res), beadColors := r1,
           editedBeadColors := r2, hasEdits := False,
           colorCounts := countColors (gridOf s2 r1),
           patternCanvas :=
             (if isEditMode s \<and> r2 \<noteq> []
              then Some (redraw (gridOf s2 r2) (beadSize (config s)) (showGrid (config s)))
              else patternCanvas s)\<rparr>"
    by (simp add: s'_def onProcessed_def a1 a2)
  show "gridOf s' (beadColors s') = colorGrid res" using g2 by (simp add: s' gridOf_def)
  show "gridOf s' (editedBeadColors s') = colorGrid res" using g3 by (simp add: s' gridOf_def)
  show "set (beadColors s') \<inter> set (editedBeadColors s') = {}" using disj by (simp add: s')
  show "beadPattern s' = Some (patternDataUrl res)" by (simp add: s')
  show "colorCounts s' = countColors (colorGrid res)" using g2 by (simp add: s')
  show "\<forall>r\<in>set (beadColors s'). r < fresh s'" using f1(2,3) f2(3) by (simp add: s')
qed

lemma enterEdit_frame:
  "heap (enterEdit s) = heap s" "beadColors (enterEdit s) = beadColors s"
  "editedBeadColors (enterEdit s) = editedBeadColors s" "beadPattern (enterEdit s) = beadPattern s"
  "fresh (enterEdit s) = fresh s"
  by (simp_all add: enterEdit_def)

lemma cancelEdits_grids:
  fixes s
  defines "s' \<equiv> cancelEdits s"
  assumes "\<forall>r\<in>set (beadColors s). r < fresh s"
  shows "beadColors s' = beadColors s" "gridOf s' (beadColors s') = gridOf s (beadColors s)"
    "gridOf s' (editedBeadColors s') = gridOf s (beadColors s)" "\<not> isEditMode s'"
    "beadPattern s' = beadPattern s"
proof -
  obtain r1 s1 where a1: "allocRows (gridOf s (beadColors s)) s = (r1, s1)"
    by (cases "allocRows (gridOf s (beadColors s)) s")
  note f1 = allocRows_grid[OF a1]
  have s': "s' = s1\<lparr>editedBeadColors := r1, hasEdits := False, isEditMode := False,
           patternCanvas := None\<rparr>"
    by (simp add: s'_def cancelEdits_def a1)
  have s1: "beadColors s1 = beadColors s" "beadPattern s1 = beadPattern s"
    using a1 by (auto simp: allocRows_def)
  show "beadColors s' = beadColors s" by (simp add: s' s1)
  have "gridOf s1 (beadColors s) = gridOf s (beadColors s)"
    unfolding gridOf_def using f1(2,4) assms(2) by (intro map_cong) auto
  moreover have "gridOf s' (beadColors s') = gridOf s1 (beadColors s)"
    by (simp add: s' s1 gridOf_def)
  ultimately show "gridOf s' (beadColors s') = gridOf s (beadColors s)" by simp
  show "gridOf s' (editedBeadColors s') = gridOf s (beadColors s)"
    using f1(1) by (simp add: s' gridOf_def)
  show "\<not> isEditMode s'" by (simp add: s')
  show "beadPattern s' = beadPattern s" by (simp add: s' s1)
qed

text \<open>
  Claim C7. After a generation, entering edit mode, any sequence of tool selections,
  colour selections and edits (inside the grid or not), and Cancel: the rows of the
  generated grid and the rows of the edit buffer are different arrays throughout, the
  generated grid holds what generation returned before and after Cancel, and Cancel
  leaves edit mode with the edit buffer equal to the generated grid and the pattern
  unchanged.
\<close>

theorem cancel_restores_grid:
  fixes res :: result and s0 :: editor and events :: "event list"
  defines "s1 \<equiv> enterEdit (onProcessed res s0)"
  defines "s2 \<equiv> foldl dispatch s1 events"
  defines "s3 \<equiv> cancelEdits s2"
  shows "gridOf s1 (beadColors s1) = colorGrid res \<and>
         set (beadColors s2) \<inter> set (editedBeadColors s2) = {} \<and>
         gridOf s2 (beadColors s2) = colorGrid res \<and>
         beadColors s3 = beadColors s1 \<and>
         gridOf s3 (beadColors s3) = colorGrid res \<and>
         gridOf s3 (editedBeadColors s3) = colorGrid res \<and>
         \<not> isEditMode s3 \<and>
         beadPattern s3 = beadPattern s1"
proof -
  note p = onProcessed_grids[of res s0]
  have e1: "heap s1 = heap (onProcessed res s0)" "beadColors s1 = beadColors (onProcessed res s0)"
    "editedBeadColors s1 = editedBeadColors (onProcessed res s0)"
    "fresh s1 = fresh (onProcessed res s0)"
    by (simp_all add: s1_def enterEdit_frame)
  have g1: "gridOf s1 (beadColors s1) = colorGrid res" using p(1) e1 by (simp add: gridOf_def)
  have d1: "set (beadColors s1) \<inter> set (editedBeadColors s1) = {}" using p(3) e1 by simp
  have fr1: "\<forall>r\<in>set (beadColors s1). r < fresh s1" using p(6) e1 by simp
  note f = session_frame[of s1 events, folded s2_def]
  have b2: "beadColors s2 = beadColors s1" "editedBeadColors s2 = editedBeadColors s1"
    "fresh s2 = fresh s1" "beadPattern s2 = beadPattern s1"
    using f by simp_all
  have d2: "set (beadColors s2) \<inter> set (editedBeadColors s2) = {}" using d1 b2 by simp
  have "gridOf s2 (beadColors s1) = gridOf s1 (beadColors s1)"
    unfolding gridOf_def using f d1 by (intro map_cong) auto
  then have g2: "gridOf s2 (beadColors s2) = colorGrid res" using g1 b2 by simp
  have fr2: "\<forall>r\<in>set (beadColors s2). r < fresh s2" using fr1 b2 by simp
  note c = cancelEdits_grids[OF fr2, folded s3_def]
  show ?thesis using g1 d2 g2 c b2 by simp
qed

section \<open>Grid editor: sessions on one bead\<close>

lemma sqrt_gt_iff:
  fixes d c :: real
  assumes "0 \<le> c"
  shows "c < sqrt d \<longleftrightarrow> c\<^sup>2 < d"
proof -
  have "sqrt (c\<^sup>2) = c" using assms by simp
  then have "c < sqrt d \<longleftrightarrow> sqrt (c\<^sup>2) < sqrt d" by simp
  then show ?thesis by (simp only: real_sqrt_less_iff)
qed

lemmas quant_eval =
  plainCell_def chan_def Let_def findClosestColor_def first_def colorDistance_def parse_defs
  num_defs isBackgroundColor_def sqrt_lt_iff sqrt_gt_iff

lemma red_pastel:
  "processImage (Some redPixel) 10 29 pastelPalette True False False 30 =
     Inr \<lparr>patternDataUrl =
            \<lparr>bmWidth = 10, bmHeight = 10,
             ops = [FillStyle (Some ''#000000''), FillRect 0 0 10 10, StrokeRect 0 0 10 10]\<rparr>,
          colorGrid = [[''#000000'']]\<rparr>"
  unfolding processImage_def
  by (simp add: redPixel_dims)
     (simp add: redPixel_def uniformImage_def pastelPalette_def quant_eval
        drawGrid_def drawBead_def)

lemma red_standard:
  "processImage (Some redPixel) 10 29 standardPalette True False False 30 = Inr redResult"
  unfolding processImage_def
  by (simp add: redPixel_dims)
     (simp add: redPixel_def uniformImage_def standardPalette_def quant_eval redResult_def
        drawGrid_def drawBead_def)


lemmas session_eval =
  setEditTool_def enterEdit_def onProcessed_def allocRows_def initialEditor_def
  handlePatternEdit_def gridOf_def Let_def clickColor_def generate_def upload_def
  selectPalette_def redraw_def drawGrid_def drawBead_def countColors_def

text \<open>
  The statement on the one red bead, erased in the edit buffer: after Cancel the
  generated grid still holds the bead.
\<close>

theorem cancel_restores_grid_witness:
  "gridOf (cancelEdits (foldl dispatch (enterEdit (onProcessed redResult initialEditor))
             [Tool Erase, Edit 0 0]))
     (beadColors (cancelEdits (foldl dispatch (enterEdit (onProcessed redResult initialEditor))
             [Tool Erase, Edit 0 0])))
     = [[''#FF0000'']] \<and>
   gridOf (foldl dispatch (enterEdit (onProcessed redResult initialEditor)) [Tool Erase, Edit 0 0])
     (editedBeadColors
        (foldl dispatch (enterEdit (onProcessed redResult initialEditor)) [Tool Erase, Edit 0 0]))
     = [[''transparent'']]"
proof -
  have e: "gridOf (foldl dispatch (enterEdit (onProcessed redResult initialEditor))
          [Tool Erase, Edit 0 0])
     (editedBeadColors
        (foldl dispatch (enterEdit (onProcessed redResult initialEditor)) [Tool Erase, Edit 0 0]))
     = [[''transparent'']]"
    by (simp add: session_eval redResult_def)
  have w: "colorGrid redResult = [[''#FF0000'']]" by (simp add: redResult_def)
  note t = cancel_restores_grid[of redResult initialEditor "[Tool Erase, Edit 0 0]"]
  note a = t[THEN conjunct2, THEN conjunct2, THEN conjunct2, THEN conjunct2, THEN conjunct1]
  show ?thesis using a[unfolded w] e by (rule conjI)
qed

text \<open>
  Claim C6 does not hold of \<^verbatim>\<open>applyEdits\<close>. After the only bead was erased in edit mode,
  Apply redraws the pattern from the edit buffer, recounts the colours from it and
  leaves edit mode, but \<^verbatim>\<open>beadColors\<close> still holds the bead: only the processing effect
  ever sets it. A later Edit and Cancel copies \<^verbatim>\<open>beadColors\<close> into the edit buffer and
  so brings the erased bead back.
\<close>

theorem applyEdits_leaves_beadColors:
  "gridOf (applyEdits (handlePatternEdit 0 0 eraserSession))
     (beadColors (applyEdits (handlePatternEdit 0 0 eraserSession))) = [[''#FF0000'']] \<and>
   gridOf (applyEdits (handlePatternEdit 0 0 eraserSession))
     (editedBeadColors (applyEdits (handlePatternEdit 0 0 eraserSession))) = [[''transparent'']] \<and>
   colorCounts (applyEdits (handlePatternEdit 0 0 eraserSession)) = [] \<and>
   beadPattern (applyEdits (handlePatternEdit 0 0 eraserSession))
     = Some \<lparr>bmWidth = 10, bmHeight = 10, ops = [ClearRect 0 0 10 10]\<rparr> \<and>
   \<not> isEditMode (applyEdits (handlePatternEdit 0 0 eraserSession)) \<and>
   gridOf (cancelEdits (enterEdit (applyEdits (handlePatternEdit 0 0 eraserSession))))
     (editedBeadColors (cancelEdits (enterEdit (applyEdits (handlePatternEdit 0 0 eraserSession)))))
     = [[''#FF0000'']]"
  by (simp add: eraserSession_def applyEdits_def generateEditedPattern_def cancelEdits_def
      session_eval redResult_def)

lemma toDouble_exact:
  assumes "0 < x" "2 powi e \<le> x" "x < 2 powi (e + 1)" "- 1022 \<le> e" "e < 1023"
    and "rat_of_int (roundHalfEven (x / 2 powi (e - 52))) * 2 powi (e - 52) = x"
  shows "toDouble x = Finite x"
proof -
  have f: "fl64 x = x" using fl64_eval[OF assms(1,2,3)] assms(6) by simp
  have "(2::rat) powi (- 1022) \<le> 2 powi e" using assms(4) by (intro power_int_increasing) auto
  then have a: "\<not> \<bar>x\<bar> < 2 powi (- 1022)" using assms(1,2) by simp
  have "(2::rat) powi (e + 1) \<le> 2 powi 1024" using assms(5) by (intro power_int_increasing) auto
  then have b: "\<not> 2 powi 1024 \<le> \<bar>fl64 x\<bar>" using assms(1,3) f by simp
  show ?thesis using a b f by (simp add: toDouble_def)
qed

lemma toDouble_values:
  "toDouble 1 = Finite 1" "toDouble 5 = Finite 5" "toDouble 15 = Finite 15"
  "toDouble (1 / 2) = Finite (1 / 2)" "toDouble (3 / 2) = Finite (3 / 2)"
proof -
  show "toDouble 1 = Finite 1"
    by (rule toDouble_exact[where e = 0]) (simp_all add: fl_eval)
  show "toDouble 5 = Finite 5"
    by (rule toDouble_exact[where e = 2]) (simp_all add: fl_eval)
  show "toDouble 15 = Finite 15"
    by (rule toDouble_exact[where e = 3]) (simp_all add: fl_eval)
  show "toDouble (1 / 2) = Finite (1 / 2)"
    by (rule toDouble_exact[where e = "- 1"]) (simp_all add: fl_eval)
  show "toDouble (3 / 2) = Finite (3 / 2)"
    by (rule toDouble_exact[where e = 0]) (simp_all add: fl_eval)
qed

lemma floor_half: "\<lfloor>1 / 2 :: rat\<rfloor> = 0"
  by (rule floor_unique) simp_all

lemma cellUnder_values:
  "cellUnder 10 10 5 0 10 = Cell 0" "cellUnder 10 10 15 0 10 = Cell 1"
  by (simp_all add: cellUnder_def toDouble_values floor_half floor_rat_numeral)

text \<open>
  Claim C8 does not hold of \<^verbatim>\<open>handleCanvasDraw\<close>. On the grid of one bead, shown at
  its natural size, with the tool \<^verbatim>\<open>add\<close>, a pointer position one cell below the grid is
  row 1 of a grid of one row: \<^verbatim>\<open>handlePatternEdit(0, 1)\<close> ignores it and changes
  nothing, and \<^verbatim>\<open>handleCanvasDraw\<close> then throws on \<^verbatim>\<open>editedBeadColors[1][0]\<close>.
\<close>

theorem handleCanvasDraw_throws:
  "handleCanvasDraw \<lparr>rectLeft = 0, rectTop = 0, rectWidth = 10, rectHeight = 10\<rparr> 5 15
     (enterEdit (onProcessed redResult initialEditor)) = Thrown TypeError \<and>
   handlePatternEdit 0 1 (enterEdit (onProcessed redResult initialEditor))
     = enterEdit (onProcessed redResult initialEditor)"
  by (simp add: handleCanvasDraw_def handlePatternEditAt_def cellUnder_values elemAt_def
      session_eval redResult_def)

section \<open>The invariant of the colour grid\<close>

lemma gridInv_nth:
  "gridInv palette w h grid \<longleftrightarrow>
     length grid = h \<and>
     (\<forall>y<h. length (grid ! y) = w \<and>
        (\<forall>x<w. grid ! y ! x = ''transparent'' \<or> grid ! y ! x \<in> set palette))"
  unfolding gridInv_def by (auto simp: all_set_conv_all_nth)

lemma processImage_gridInv:
  assumes "palette \<noteq> []" "targetDims (imgWidth im) (imgHeight im) cells = (w, h)"
    "0 < w" "0 < h"
  shows "\<exists>res. processImage (Some im) px cells palette lines dith rb t = Inr res \<and>
           gridInv palette w h (colorGrid res)"
proof -
  obtain res where res: "processImage (Some im) px cells palette lines dith rb t = Inr res"
      "length (colorGrid res) = h"
      "\<forall>y<h. length (colorGrid res ! y) = w \<and>
              (\<forall>x<w. cellOk palette
                  (isBackgroundColor rb (if rb then floodFill (drawn im w h) w h t else {}) w)
                  x y (colorGrid res ! y ! x))"
    using processImage_ok[OF assms, of px lines dith rb t] by blast
  have "gridInv palette w h (colorGrid res)"
    unfolding gridInv_nth using res(2,3) by (auto simp: cellOk_def split: if_splits)
  then show ?thesis using res(1) by blast
qed

lemma row_update_ok:
  assumes "length row = w \<and> (\<forall>c\<in>set row. c = ''transparent'' \<or> c \<in> set palette)"
    and "v = ''transparent'' \<or> v \<in> set palette"
  shows "length (row[i := v]) = w \<and>
         (\<forall>c\<in>set (row[i := v]). c = ''transparent'' \<or> c \<in> set palette)"
proof -
  have "set (row[i := v]) \<subseteq> insert v (set row)" by (rule set_update_subset_insert)
  then show ?thesis using assms by auto
qed

lemma handlePatternEdit_gridInv:
  assumes inv: "gridInv palette w h (gridOf s (editedBeadColors s))"
    and sel: "editTool s = Add \<longrightarrow> selectedColor s \<in> set palette"
  shows "gridInv palette w h
           (gridOf (handlePatternEdit x y s) (editedBeadColors (handlePatternEdit x y s)))"
proof -
  let ?s' = "handlePatternEdit x y s"
  have refs: "editedBeadColors ?s' = editedBeadColors s"
    using handlePatternEdit_frame[of x y s] by simp
  have rowok: "length (heap s r) = w \<and> (\<forall>c\<in>set (heap s r). c = ''transparent'' \<or> c \<in> set palette)"
    if "r \<in> set (editedBeadColors s)" for r
    using inv that by (auto simp: gridInv_def gridOf_def)
  have "length (heap ?s' r) = w \<and>
        (\<forall>c\<in>set (heap ?s' r). c = ''transparent'' \<or> c \<in> set palette)"
    if r: "r \<in> set (editedBeadColors s)" for r
  proof (cases "editTool s")
    case Add
    then have "heap ?s' r = heap s r \<or> (\<exists>i. heap ?s' r = (heap s r)[i := selectedColor s])"
      by (auto simp: handlePatternEdit_def Let_def)
    then consider "heap ?s' r = heap s r"
      | i where "heap ?s' r = (heap s r)[i := selectedColor s]" by blast
    then show ?thesis
    proof cases
      case 1
      then show ?thesis using rowok[OF r] by simp
    next
      case 2
      then show ?thesis
        using rowok[OF r] row_update_ok[of "heap s r" w palette "selectedColor s" i] sel Add
        by simp
    qed
  next
    case Erase
    then have "heap ?s' r = heap s r \<or> (\<exists>i. heap ?s' r = (heap s r)[i := ''transparent''])"
      by (auto simp: handlePatternEdit_def Let_def)
    then consider "heap ?s' r = heap s r"
      | i where "heap ?s' r = (heap s r)[i := ''transparent'']" by blast
    then show ?thesis
    proof cases
      case 1
      then show ?thesis using rowok[OF r] by simp
    next
      case 2
      then show ?thesis
        using rowok[OF r] row_update_ok[of "heap s r" w palette "''transparent''" i]
        by simp
    qed
  next
    case Pick
    then have "heap ?s' r = heap s r" by (auto simp: handlePatternEdit_def Let_def)
    then show ?thesis using rowok[OF r] by simp
  qed
  moreover have "length (editedBeadColors s) = h" using inv by (simp add: gridInv_def gridOf_def)
  ultimately show ?thesis by (simp add: gridInv_def gridOf_def refs)
qed

lemma handlePatternEdit_selected:
  assumes inv: "gridInv palette w h (gridOf s (editedBeadColors s))"
    and sel: "selectedColor s \<in> set palette"
  shows "selectedColor (handlePatternEdit x y s) \<in> set palette"
proof (cases "editedBeadColors s = [] \<or> \<not> isEditMode s \<or> x < 0 \<or>
    x \<ge> int (length (heap s (editedBeadColors s ! 0))) \<or> y < 0 \<or>
    y \<ge> int (length (editedBeadColors s))")
  case True
  then show ?thesis using sel by (auto simp: handlePatternEdit_def Let_def)
next
  case False
  let ?row = "editedBeadColors s ! nat y"
  have y: "nat y < length (editedBeadColors s)" using False by auto
  have z: "0 < length (editedBeadColors s)" using False by auto
  have rows: "length (heap s r) = w \<and> (\<forall>c\<in>set (heap s r). c = ''transparent'' \<or> c \<in> set palette)"
    if "r \<in> set (editedBeadColors s)" for r
    using inv that by (auto simp: gridInv_def gridOf_def)
  have "length (heap s (editedBeadColors s ! 0)) = w" using rows[of "editedBeadColors s ! 0"] z by simp
  then have x: "nat x < length (heap s ?row)" using rows[of ?row] y False by auto
  then have "heap s ?row ! nat x \<in> set (heap s ?row)" by simp
  then have p: "heap s ?row ! nat x = ''transparent'' \<or> heap s ?row ! nat x \<in> set palette"
    using rows[of ?row] y by auto
  show ?thesis using False sel p
    by (cases "editTool s") (auto simp: handlePatternEdit_def Let_def)
qed

text \<open>
  Claim C5, with the condition under which \<^verbatim>\<open>add\<close> keeps the invariant. Generation on
  a non-empty palette returns a grid of the resampled dimensions whose cells hold the
  sentinel or a member of that palette. An edit keeps these dimensions; it keeps the
  membership when the tool is not \<^verbatim>\<open>add\<close> or the selected colour is a member of the
  palette; and an edit maps a selected colour of the palette to one of the palette.
\<close>

theorem grid_invariant:
  "(palette \<noteq> [] \<and> targetDims (imgWidth im) (imgHeight im) cells = (w, h) \<and> 0 < w \<and> 0 < h \<longrightarrow>
      (\<exists>res. processImage (Some im) px cells palette lines dith rb t = Inr res \<and>
         gridInv palette w h (colorGrid res))) \<and>
   (gridInv palette w h (gridOf s (editedBeadColors s)) \<and>
    (editTool s = Add \<longrightarrow> selectedColor s \<in> set palette) \<longrightarrow>
      gridInv palette w h
        (gridOf (handlePatternEdit x y s) (editedBeadColors (handlePatternEdit x y s)))) \<and>
   (gridInv palette w h (gridOf s (editedBeadColors s)) \<and> selectedColor s \<in> set palette \<longrightarrow>
      selectedColor (handlePatternEdit x y s) \<in> set palette)"
  using processImage_gridInv[of palette im cells w h px lines dith rb t]
    handlePatternEdit_gridInv[of palette w h s x y]
    handlePatternEdit_selected[of palette w h s x y]
  by blast

text \<open>
  The statement on the one red pixel for generation, and on the eraser session for an
  edit.
\<close>

theorem grid_invariant_witness:
  "(\<exists>res. processImage (Some redPixel) 10 29 [''#FF0000'', ''#0000FF''] True False False 30
           = Inr res \<and> gridInv [''#FF0000'', ''#0000FF''] 1 1 (colorGrid res)) \<and>
   gridInv [''#FF0000'', ''#0000FF''] 1 1
     (gridOf (handlePatternEdit 0 0 eraserSession)
        (editedBeadColors (handlePatternEdit 0 0 eraserSession)))"
proof -
  have g: "gridInv [''#FF0000'', ''#0000FF''] 1 1 (gridOf eraserSession (editedBeadColors eraserSession))"
    by (simp add: eraserSession_def session_eval redResult_def gridInv_def)
  have t: "editTool eraserSession = Erase"
    by (simp add: eraserSession_def session_eval)
  show ?thesis
    using grid_invariant[of "[''#FF0000'', ''#0000FF'']" redPixel 29 1 1 10 True False False 30
        eraserSession 0 0] redPixel_dims g t
    by simp
qed

lemma red_in_standard: "''#FF0000'' \<in> set standardPalette"
  by (simp add: standardPalette_def)

lemma upload_red:
  "upload (Some redPixel) initialEditor
     = onProcessed redResult (initialEditor\<lparr>originalImage := Some (Some redPixel)\<rparr>)"
  by (simp add: upload_def generate_def initialEditor_def red_standard)

lemmas stale_eval =
  enterEdit_def onProcessed_def allocRows_def initialEditor_def clickColor_def red_in_standard
  gridOf_def redResult_def selectPalette_def generate_def red_pastel countColors_def redraw_def
  drawGrid_def drawBead_def Let_def handlePatternEdit_def

lemma staleColorSession_palette: "selectedPalette (config staleColorSession) = Pastel"
  unfolding staleColorSession_def upload_red by (simp add: stale_eval)

lemma staleColorSession_before:
  "gridOf staleColorSession (editedBeadColors staleColorSession) = [[''#000000'']]"
  unfolding staleColorSession_def upload_red by (simp add: stale_eval)

lemma staleColorSession_after:
  "gridOf (handlePatternEdit 0 0 staleColorSession)
     (editedBeadColors (handlePatternEdit 0 0 staleColorSession)) = [[''#FF0000'']]"
  unfolding staleColorSession_def upload_red by (simp add: stale_eval)

text \<open>
  Claim C5 as worded lets edits introduce only colours of the selected palette. The
  selected colour is not checked against the palette, and selecting another palette
  does not reset it: after \<open>staleColorSession\<close> the palette is pastel, the grid
  satisfies the invariant for it, and one \<^verbatim>\<open>add\<close> writes \<^verbatim>\<open>#FF0000\<close>, which pastel does
  not have.
\<close>

theorem stale_color_breaks_invariant:
  "selectedPalette (config staleColorSession) = Pastel \<and>
   gridInv (beadPalettes Pastel) 1 1
     (gridOf staleColorSession (editedBeadColors staleColorSession)) \<and>
   \<not> gridInv (beadPalettes Pastel) 1 1
     (gridOf (handlePatternEdit 0 0 staleColorSession)
        (editedBeadColors (handlePatternEdit 0 0 staleColorSession)))"
  by (simp add: staleColorSession_palette staleColorSession_before staleColorSession_after
      gridInv_def pastelPalette_def)

section \<open>Dithering\<close>

lemma dither_code:
  "ditherRows [''#000000'', ''#020100''] (isBackgroundColor False {} 2) 2 1
     [3, 1, 0, 255, 1, 0, 0, 255] [0..<1] = Inr [[''#020100'', ''#000000'']]"
  by (simp add: ditherCell_def spread_def addAt_def share_def toUint8Clamp_def roundHalfEven_def
      nmul_def ndiv_def quant_eval upt_conv_Cons)

lemma dither_spec:
  "specDitherRows [''#000000'', ''#020100''] (isBackgroundColor False {} 2) 2 1
     [Num 3, Num 1, Num 0, Num 255, Num 1, Num 0, Num 0, Num 255] [0..<1]
     = Inr [[''#020100'', ''#020100'']]"
  by (simp add: specDitherCell_def specSpread_def specAddAt_def specChan_def clampRead_def
      share_def nmul_def ndiv_def quant_eval upt_conv_Cons)

lemma idx_bound:
  fixes w h :: nat
  assumes "x < w" "y < h"
  shows "y * w + x < w * h"
proof -
  have "y * w + x < y * w + w" using assms(1) by simp
  also have "\<dots> = Suc y * w" by simp
  also have "\<dots> \<le> h * w" using assms(2) by (intro mult_le_mono1) simp
  finally show ?thesis by (simp add: mult.commute)
qed

lemma addAt_length: "length (addAt p i v) = length p"
  by (simp add: addAt_def)

lemma spread_length: "length (spread p i err k) = length p"
  by (cases err) (simp add: spread_def addAt_length)

lemma spread_nth:
  assumes "i + 2 < length p" "j < length p"
  shows "spread p i err k ! j =
     (if i \<le> j \<and> j < i + 3
      then toUint8Clamp (nadd (Num (real (p ! j))) (share (component err (j - i)) k))
      else p ! j)"
proof -
  obtain e0 e1 e2 where err: "err = (e0, e1, e2)" by (cases err)
  consider "j = i" | "j = i + 1" | "j = i + 2" | "j < i \<or> i + 3 \<le> j" by linarith
  then show ?thesis
  proof cases
    case 1
    then show ?thesis using assms
      by (simp add: err spread_def addAt_def chan_def component_def)
  next
    case 2
    then show ?thesis using assms
      by (simp add: err spread_def addAt_def chan_def component_def)
  next
    case 3
    then show ?thesis using assms
      by (simp add: err spread_def addAt_def chan_def component_def)
  next
    case 4
    then show ?thesis using assms
      by (auto simp: err spread_def addAt_def)
  qed
qed

lemma quad_range:
  fixes a b ch :: nat
  assumes "ch < 4"
  shows "a * 4 \<le> b * 4 + ch \<and> b * 4 + ch < a * 4 + 3 \<longleftrightarrow> b = a \<and> ch < 3"
  using assms by arith

lemma spread_pixel_nth:
  assumes len: "length p = 4 * w * h" and t: "tx < w" "ty < h" and u: "ux < w" "uy < h" "ch < 4"
  shows "spread p ((ty * w + tx) * 4) err k ! ((uy * w + ux) * 4 + ch) =
     (if ux = tx \<and> uy = ty \<and> ch < 3
      then toUint8Clamp (nadd (Num (real (p ! ((uy * w + ux) * 4 + ch))))
             (share (component err ch) k))
      else p ! ((uy * w + ux) * 4 + ch))"
proof -
  have bt: "ty * w + tx < w * h" using idx_bound[OF t] .
  have bu: "uy * w + ux < w * h" using idx_bound[OF u(1,2)] .
  have i: "(ty * w + tx) * 4 + 2 < length p" using bt len by simp
  have j: "(uy * w + ux) * 4 + ch < length p" using bu u(3) len by simp
  have same: "ux = tx \<and> uy = ty \<longleftrightarrow> uy * w + ux = ty * w + tx"
    using idx_inj[OF u(1) t(1), of uy ty] by auto
  have rng: "(ty * w + tx) * 4 \<le> (uy * w + ux) * 4 + ch \<and>
        (uy * w + ux) * 4 + ch < (ty * w + tx) * 4 + 3
      \<longleftrightarrow> uy * w + ux = ty * w + tx \<and> ch < 3"
    using quad_range[OF u(3), of "ty * w + tx" "uy * w + ux"] .
  note n = spread_nth[OF i j, of err k]
  show ?thesis
  proof (cases "ux = tx \<and> uy = ty \<and> ch < 3")
    case True
    then have e: "ux = tx" "uy = ty" "ch < 3" by simp_all
    have d: "(ty * w + tx) * 4 + ch - (ty * w + tx) * 4 = ch" by simp
    have c: "(ty * w + tx) * 4 \<le> (ty * w + tx) * 4 + ch \<and>
        (ty * w + tx) * 4 + ch < (ty * w + tx) * 4 + 3"
      using e(3) by simp
    show ?thesis using n unfolding e(1) e(2) by (simp only: c d e(3) if_True simp_thms)
  next
    case False
    then have c: "\<not> ((ty * w + tx) * 4 \<le> (uy * w + ux) * 4 + ch \<and>
        (uy * w + ux) * 4 + ch < (ty * w + tx) * 4 + 3)"
      using rng same by blast
    show ?thesis using n by (simp only: c False if_False)
  qed
qed

lemma cond_spread_nth:
  assumes len: "length p = 4 * w * h" and u: "ux < w" "uy < h" "ch < 4"
    and t: "cond \<Longrightarrow> tx < w \<and> ty < h"
  shows "(if cond then spread p ((ty * w + tx) * 4) err k else p) ! ((uy * w + ux) * 4 + ch) =
     (if cond \<and> ux = tx \<and> uy = ty \<and> ch < 3
      then toUint8Clamp (nadd (Num (real (p ! ((uy * w + ux) * 4 + ch))))
             (share (component err ch) k))
      else p ! ((uy * w + ux) * 4 + ch))"
proof (cases cond)
  case True
  then have "tx < w" "ty < h" using t by simp_all
  then show ?thesis using spread_pixel_nth[OF len _ _ u, of tx ty err k] True by simp
next
  case False
  then show ?thesis by simp
qed

lemma cond_spread_length:
  "length (if cond then spread p i err k else p) = length p"
  by (simp add: spread_length)

lemma kernel_cases:
  fixes x y tx ty :: nat
  shows "kernel (int tx - int x) (int ty - int y) =
     (if tx = x + 1 \<and> ty = y then Some 7
      else if tx + 1 = x \<and> ty = y + 1 then Some 3
      else if tx = x \<and> ty = y + 1 then Some 5
      else if tx = x + 1 \<and> ty = y + 1 then Some 1
      else None)"
  unfolding kernel_def by (auto simp: algebra_simps)

lemma ditherCell_unfold:
  fixes w h x y :: nat
  assumes nb: "\<not> isBg x y"
    and fc: "findClosestColor (chan pixels ((y * w + x) * 4)) (chan pixels ((y * w + x) * 4 + 1))
               (chan pixels ((y * w + x) * 4 + 2)) palette = Some c"
  defines "e \<equiv> (nsub (chan pixels ((y * w + x) * 4)) (component (channels c) 0),
                 nsub (chan pixels ((y * w + x) * 4 + 1)) (component (channels c) 1),
                 nsub (chan pixels ((y * w + x) * 4 + 2)) (component (channels c) 2))"
  defines "p1 \<equiv> (if x + 1 < w then spread pixels ((y * w + (x + 1)) * 4) e 7 else pixels)"
  defines "q1 \<equiv> (if y + 1 < h \<and> x > 0 then spread p1 (((y + 1) * w + (x - 1)) * 4) e 3 else p1)"
  defines "q2 \<equiv> (if y + 1 < h then spread q1 (((y + 1) * w + x) * 4) e 5 else q1)"
  defines "q3 \<equiv> (if y + 1 < h \<and> x + 1 < w then spread q2 (((y + 1) * w + (x + 1)) * 4) e 1 else q2)"
  shows "ditherCell palette isBg w h pixels x y = Inr (c, q3)"
proof -
  obtain cr cg cb where ch: "channels c = (cr, cg, cb)" by (cases "channels c")
  have b1: "(y * w + x) * 4 + 4 = (y * w + (x + 1)) * 4" by simp
  have b3: "(y * w + x) * 4 + 4 * w = ((y + 1) * w + x) * 4" by simp
  have b4: "(y * w + x) * 4 + 4 * w + 4 = ((y + 1) * w + (x + 1)) * 4" by simp
  have b2: "(y * w + x) * 4 + 4 * w - 4 = ((y + 1) * w + (x - 1)) * 4" if "x > 0"
    using that by (cases x) simp_all
  have e: "e = (nsub (chan pixels ((y * w + x) * 4)) cr,
                nsub (chan pixels ((y * w + x) * 4 + 1)) cg,
                nsub (chan pixels ((y * w + x) * 4 + 2)) cb)"
    by (simp add: e_def ch component_def)
  show ?thesis
  proof (cases "0 < x")
    case True
    show ?thesis
      unfolding ditherCell_def Let_def q3_def q2_def q1_def p1_def e b2[OF True]
      using nb fc True by (simp add: ch add_ac mult_ac)
  next
    case False
    show ?thesis
      unfolding ditherCell_def Let_def q3_def q2_def q1_def p1_def e
      using nb fc False by (simp add: ch add_ac mult_ac)
  qed
qed

lemma ditherCell_nth:
  fixes w h x y :: nat
  assumes len: "length pixels = 4 * w * h" and xy: "x < w" "y < h"
    and nb: "\<not> isBg x y"
    and fc: "findClosestColor (chan pixels ((y * w + x) * 4)) (chan pixels ((y * w + x) * 4 + 1))
               (chan pixels ((y * w + x) * 4 + 2)) palette = Some c"
  shows "\<exists>p'. ditherCell palette isBg w h pixels x y = Inr (c, p') \<and>
           length p' = length pixels \<and>
           (\<forall>tx<w. \<forall>ty<h. \<forall>ch<4.
              p' ! ((ty * w + tx) * 4 + ch) =
                (case (if ch < 3 then kernel (int tx - int x) (int ty - int y) else None) of
                   None \<Rightarrow> pixels ! ((ty * w + tx) * 4 + ch)
                 | Some k \<Rightarrow>
                     toUint8Clamp
                       (nadd (Num (real (pixels ! ((ty * w + tx) * 4 + ch))))
                          (share (nsub (chan pixels ((y * w + x) * 4 + ch))
                                    (component (channels c) ch)) k))))"
proof -
  define e where "e = (nsub (chan pixels ((y * w + x) * 4)) (component (channels c) 0),
                 nsub (chan pixels ((y * w + x) * 4 + 1)) (component (channels c) 1),
                 nsub (chan pixels ((y * w + x) * 4 + 2)) (component (channels c) 2))"
  define p1 where "p1 = (if x + 1 < w then spread pixels ((y * w + (x + 1)) * 4) e 7 else pixels)"
  define q1 where
    "q1 = (if y + 1 < h \<and> x > 0 then spread p1 (((y + 1) * w + (x - 1)) * 4) e 3 else p1)"
  define q2 where "q2 = (if y + 1 < h then spread q1 (((y + 1) * w + x) * 4) e 5 else q1)"
  define q3 where
    "q3 = (if y + 1 < h \<and> x + 1 < w then spread q2 (((y + 1) * w + (x + 1)) * 4) e 1 else q2)"
  have cell: "ditherCell palette isBg w h pixels x y = Inr (c, q3)"
    using ditherCell_unfold[where isBg = isBg and x = x and y = y and pixels = pixels and w = w
          and palette = palette and c = c and h = h, OF nb fc]
    unfolding q3_def q2_def q1_def p1_def e_def .
  have l1: "length p1 = 4 * w * h" by (simp add: p1_def spread_length len)
  have l2: "length q1 = 4 * w * h" by (simp add: q1_def spread_length l1)
  have l3: "length q2 = 4 * w * h" by (simp add: q2_def spread_length l2)
  have l4: "length q3 = 4 * w * h" by (simp add: q3_def spread_length l3)
  have ec: "component e ch = nsub (chan pixels ((y * w + x) * 4 + ch)) (component (channels c) ch)"
    if c3: "ch < 3" for ch
  proof -
    consider "ch = 0" | "ch = 1" | "ch = 2" using c3 by linarith
    then show ?thesis by cases (simp_all add: e_def component_def)
  qed
  have "q3 ! ((ty * w + tx) * 4 + ch) =
          (case (if ch < 3 then kernel (int tx - int x) (int ty - int y) else None) of
             None \<Rightarrow> pixels ! ((ty * w + tx) * 4 + ch)
           | Some k \<Rightarrow>
               toUint8Clamp
                 (nadd (Num (real (pixels ! ((ty * w + tx) * 4 + ch))))
                    (share (nsub (chan pixels ((y * w + x) * 4 + ch))
                              (component (channels c) ch)) k)))"
    if u: "tx < w" "ty < h" "ch < 4" for tx ty ch
  proof -
    define U where "U = (ty * w + tx) * 4 + ch"
    define A1 where "A1 \<longleftrightarrow> tx = x + 1 \<and> ty = y"
    define A2 where "A2 \<longleftrightarrow> tx + 1 = x \<and> ty = y + 1"
    define A3 where "A3 \<longleftrightarrow> tx = x \<and> ty = y + 1"
    define A4 where "A4 \<longleftrightarrow> tx = x + 1 \<and> ty = y + 1"
    define E where "E = component e ch"
    have c1: "(x + 1 < w \<and> tx = x + 1 \<and> ty = y \<and> ch < 3) \<longleftrightarrow> (A1 \<and> ch < 3)"
      using u by (auto simp: A1_def)
    have c2: "((y + 1 < h \<and> x > 0) \<and> tx = x - 1 \<and> ty = y + 1 \<and> ch < 3) \<longleftrightarrow> (A2 \<and> ch < 3)"
      using u by (auto simp: A2_def)
    have c3: "(y + 1 < h \<and> tx = x \<and> ty = y + 1 \<and> ch < 3) \<longleftrightarrow> (A3 \<and> ch < 3)"
      using u by (auto simp: A3_def)
    have c4: "((y + 1 < h \<and> x + 1 < w) \<and> tx = x + 1 \<and> ty = y + 1 \<and> ch < 3) \<longleftrightarrow> (A4 \<and> ch < 3)"
      using u by (auto simp: A4_def)
    have t1: "x + 1 < w \<Longrightarrow> x + 1 < w \<and> y < h" using xy by simp
    have t2: "y + 1 < h \<and> x > 0 \<Longrightarrow> x - 1 < w \<and> y + 1 < h" using xy by simp
    have t3: "y + 1 < h \<Longrightarrow> x < w \<and> y + 1 < h" using xy by simp
    have t4: "y + 1 < h \<and> x + 1 < w \<Longrightarrow> x + 1 < w \<and> y + 1 < h" by simp
    have s1: "p1 ! U = (if A1 \<and> ch < 3
        then toUint8Clamp (nadd (Num (real (pixels ! U))) (share E 7)) else pixels ! U)"
      using cond_spread_nth[OF len u t1, where err = e and k = 7]
      unfolding p1_def U_def E_def by (simp only: c1)
    have s2: "q1 ! U = (if A2 \<and> ch < 3
        then toUint8Clamp (nadd (Num (real (p1 ! U))) (share E 3)) else p1 ! U)"
      using cond_spread_nth[OF l1 u t2, where err = e and k = 3]
      unfolding q1_def U_def E_def by (simp only: c2)
    have s3: "q2 ! U = (if A3 \<and> ch < 3
        then toUint8Clamp (nadd (Num (real (q1 ! U))) (share E 5)) else q1 ! U)"
      using cond_spread_nth[OF l2 u t3, where err = e and k = 5]
      unfolding q2_def U_def E_def by (simp only: c3)
    have s4: "q3 ! U = (if A4 \<and> ch < 3
        then toUint8Clamp (nadd (Num (real (q2 ! U))) (share E 1)) else q2 ! U)"
      using cond_spread_nth[OF l3 u t4, where err = e and k = 1]
      unfolding q3_def U_def E_def by (simp only: c4)
    have k: "kernel (int tx - int x) (int ty - int y) =
        (if A1 then Some 7 else if A2 then Some 3 else if A3 then Some 5
         else if A4 then Some 1 else None)"
      using kernel_cases[of tx x ty y] by (simp only: A1_def A2_def A3_def A4_def)
    have excl: "\<not> (A1 \<and> A2)" "\<not> (A1 \<and> A3)" "\<not> (A1 \<and> A4)" "\<not> (A2 \<and> A3)" "\<not> (A2 \<and> A4)"
      "\<not> (A3 \<and> A4)"
      by (auto simp: A1_def A2_def A3_def A4_def)
    have E: "ch < 3 \<Longrightarrow>
        E = nsub (chan pixels ((y * w + x) * 4 + ch)) (component (channels c) ch)"
      using ec by (simp add: E_def)
    have main: "q3 ! U =
          (case (if ch < 3 then kernel (int tx - int x) (int ty - int y) else None) of
             None \<Rightarrow> pixels ! U
           | Some k \<Rightarrow> toUint8Clamp (nadd (Num (real (pixels ! U))) (share E k)))"
      unfolding k s4 s3 s2 s1 using excl
      by (cases A1; cases A2; cases A3; cases A4; cases "ch < 3") simp_all
    show ?thesis
    proof (cases "ch < 3")
      case True
      show ?thesis using main unfolding U_def E[OF True, symmetric] .
    next
      case False
      then show ?thesis using main by (simp add: U_def)
    qed
  qed
  then show ?thesis using cell l4 len by auto
qed

lemma ditherRow_seq:
  "ditherRow palette isBg w h pixels y xs = ditherSeq palette isBg w h pixels (map (\<lambda>x. (x, y)) xs)"
  by (induction xs arbitrary: pixels) (auto split: sum.splits prod.splits)

lemma ditherSeq_append:
  "ditherSeq palette isBg w h pixels (ps @ qs) =
     (case ditherSeq palette isBg w h pixels ps of
        Inl e \<Rightarrow> Inl e
      | Inr (cs, p) \<Rightarrow>
          (case ditherSeq palette isBg w h p qs of
             Inl e \<Rightarrow> Inl e
           | Inr (ds, p') \<Rightarrow> Inr (cs @ ds, p')))"
  by (induction ps arbitrary: pixels) (auto split: sum.splits prod.splits)

lemma ditherSeq_length:
  "ditherSeq palette isBg w h pixels ps = Inr (cs, p) \<Longrightarrow> length cs = length ps"
  by (induction ps arbitrary: pixels cs) (auto split: sum.splits prod.splits)

lemma ditherRows_seq:
  "case ditherSeq palette isBg w h pixels (concat (map (\<lambda>y. map (\<lambda>x. (x, y)) [0..<w]) ys)) of
     Inl e \<Rightarrow> ditherRows palette isBg w h pixels ys = Inl e
   | Inr (cs, p) \<Rightarrow>
       (\<exists>rows. ditherRows palette isBg w h pixels ys = Inr rows \<and> concat rows = cs \<and>
          length rows = length ys \<and> (\<forall>row\<in>set rows. length row = w))"
proof (induction ys arbitrary: pixels)
  case Nil
  then show ?case by simp
next
  case (Cons y ys)
  let ?r = "map (\<lambda>x. (x, y)) [0..<w]"
  let ?rest = "concat (map (\<lambda>y. map (\<lambda>x. (x, y)) [0..<w]) ys)"
  show ?case
  proof (cases "ditherSeq palette isBg w h pixels ?r")
    case (Inl e)
    then show ?thesis by (simp add: ditherSeq_append ditherRow_seq)
  next
    case (Inr a)
    obtain row p where a: "a = (row, p)" by (cases a)
    have len: "length row = w" using ditherSeq_length[OF Inr[unfolded a]] by simp
    show ?thesis
    proof (cases "ditherSeq palette isBg w h p ?rest")
      case (Inl e)
      then have "ditherRows palette isBg w h p ys = Inl e" using Cons[of p] by simp
      then show ?thesis using Inr a Inl by (simp add: ditherSeq_append ditherRow_seq)
    next
      case r: (Inr b)
      obtain cs p' where b: "b = (cs, p')" by (cases b)
      obtain rows where rows: "ditherRows palette isBg w h p ys = Inr rows" "concat rows = cs"
          "length rows = length ys" "\<forall>row\<in>set rows. length row = w"
        using Cons[of p] r b by auto
      show ?thesis using Inr a r b rows len by (simp add: ditherSeq_append ditherRow_seq)
    qed
  qed
qed

lemma processImage_dithered:
  assumes "targetDims (imgWidth im) (imgHeight im) cells = (w, h)" "0 < w" "0 < h"
  shows "case ditherSeq palette
             (isBackgroundColor rb (if rb then floodFill (drawn im w h) w h t else {}) w)
             w h (drawn im w h) (rowMajor w h) of
       Inl e \<Rightarrow> processImage (Some im) px cells palette lines True rb t = Inl e
     | Inr (cs, p) \<Rightarrow>
         (\<exists>res. processImage (Some im) px cells palette lines True rb t = Inr res \<and>
            concat (colorGrid res) = cs \<and> length (colorGrid res) = h \<and>
            (\<forall>row\<in>set (colorGrid res). length row = w))"
proof -
  define isBg where
    "isBg = isBackgroundColor rb (if rb then floodFill (drawn im w h) w h t else {}) w"
  define data where "data = drawn im w h"
  have pi: "processImage (Some im) px cells palette lines True rb t =
      (case ditherRows palette isBg w h data [0..<h] of
         Inl e \<Rightarrow> Inl e
       | Inr grid \<Rightarrow>
           Inr \<lparr>patternDataUrl =
                  \<lparr>bmWidth = w * px, bmHeight = h * px,
                   ops = (if rb then [ClearRect 0 0 (int (w * px)) (int (h * px))] else []) @
                         drawGrid grid w h px lines\<rparr>,
                colorGrid = grid\<rparr>)"
    using assms by (simp add: processImage_def Let_def isBg_def data_def)
  have "case ditherSeq palette isBg w h data (rowMajor w h) of
       Inl e \<Rightarrow> processImage (Some im) px cells palette lines True rb t = Inl e
     | Inr (cs, p) \<Rightarrow>
         (\<exists>res. processImage (Some im) px cells palette lines True rb t = Inr res \<and>
            concat (colorGrid res) = cs \<and> length (colorGrid res) = h \<and>
            (\<forall>row\<in>set (colorGrid res). length row = w))"
  proof (cases "ditherSeq palette isBg w h data (rowMajor w h)")
    case (Inl e)
    then have "ditherRows palette isBg w h data [0..<h] = Inl e"
      using ditherRows_seq[of palette isBg w h data "[0..<h]"] by (simp add: rowMajor_def)
    then show ?thesis using Inl by (simp add: pi)
  next
    case (Inr a)
    obtain cs p where a: "a = (cs, p)" by (cases a)
    obtain rows where rows: "ditherRows palette isBg w h data [0..<h] = Inr rows"
        "concat rows = cs" "length rows = h" "\<forall>row\<in>set rows. length row = w"
      using ditherRows_seq[of palette isBg w h data "[0..<h]"] Inr a
      by (auto simp: rowMajor_def)
    show ?thesis using Inr a rows by (simp add: pi)
  qed
  then show ?thesis unfolding isBg_def data_def .
qed

lemma twoPixels_dims: "targetDims (imgWidth twoPixels) (imgHeight twoPixels) 29 = (2, 1)"
  by (simp add: twoPixels_def targetDims_def)

lemma twoPixels_seq:
  "ditherSeq [''#000000'', ''#020100''] (isBackgroundColor False {} 2) 2 1
     [3, 1, 0, 255, 1, 0, 0, 255] (rowMajor 2 1)
   = Inr ([''#020100'', ''#000000''], [3, 1, 0, 255, 1, 0, 0, 255])"
  by (simp add: rowMajor_def ditherCell_def spread_def addAt_def share_def toUint8Clamp_def
      roundHalfEven_def nmul_def ndiv_def quant_eval upt_conv_Cons)

text \<open>
  Claim C4, with the storage the code uses. In dithered mode the grid, read row by row,
  is the sequence of colours of one pass of the step over all pixels in row-major order,
  on a working copy that starts as the bytes of the resampled image; when a step fails
  the whole call fails with its error. The working copy is an array of bytes. On a
  background pixel a step yields the sentinel and leaves the working copy as it is. On
  any other pixel it yields the nearest palette colour of the current bytes of the
  pixel, and the only bytes that change are the colour channels of the neighbours to the
  right, below left, below and below right that lie inside the buffer: each becomes its
  old value plus 7, 3, 5 or 1 sixteenths of the error of its channel, rounded to the
  nearest integer and clamped to \<open>[0, 255]\<close> when it is stored.
\<close>

theorem dithering_row_major:
  fixes w h x y :: nat
  shows
    "(targetDims (imgWidth im) (imgHeight im) cells = (w, h) \<and> 0 < w \<and> 0 < h \<longrightarrow>
        (case ditherSeq palette
                (isBackgroundColor rb (if rb then floodFill (drawn im w h) w h t else {}) w)
                w h (drawn im w h) (rowMajor w h) of
           Inl e \<Rightarrow> processImage (Some im) px cells palette lines True rb t = Inl e
         | Inr (cs, p) \<Rightarrow>
             (\<exists>res. processImage (Some im) px cells palette lines True rb t = Inr res \<and>
                concat (colorGrid res) = cs \<and> length (colorGrid res) = h \<and>
                (\<forall>row\<in>set (colorGrid res). length row = w)))) \<and>
     (length pixels = 4 * w * h \<and> x < w \<and> y < h \<longrightarrow>
        (isBg x y \<longrightarrow> ditherCell palette isBg w h pixels x y = Inr (''transparent'', pixels)) \<and>
        (\<not> isBg x y \<longrightarrow>
           (\<forall>c. findClosestColor (chan pixels ((y * w + x) * 4))
                  (chan pixels ((y * w + x) * 4 + 1)) (chan pixels ((y * w + x) * 4 + 2)) palette
                  = Some c \<longrightarrow>
              (\<exists>p'. ditherCell palette isBg w h pixels x y = Inr (c, p') \<and>
                 length p' = length pixels \<and>
                 (\<forall>tx<w. \<forall>ty<h. \<forall>ch<4.
                    p' ! ((ty * w + tx) * 4 + ch) =
                      (case (if ch < 3 then kernel (int tx - int x) (int ty - int y) else None) of
                         None \<Rightarrow> pixels ! ((ty * w + tx) * 4 + ch)
                       | Some k \<Rightarrow>
                           toUint8Clamp
                             (nadd (Num (real (pixels ! ((ty * w + tx) * 4 + ch))))
                                (share (nsub (chan pixels ((y * w + x) * 4 + ch))
                                          (component (channels c) ch)) k))))))))"
proof (intro conjI impI allI)
  assume "targetDims (imgWidth im) (imgHeight im) cells = (w, h) \<and> 0 < w \<and> 0 < h"
  then show "case ditherSeq palette
                (isBackgroundColor rb (if rb then floodFill (drawn im w h) w h t else {}) w)
                w h (drawn im w h) (rowMajor w h) of
           Inl e \<Rightarrow> processImage (Some im) px cells palette lines True rb t = Inl e
         | Inr (cs, p) \<Rightarrow>
             (\<exists>res. processImage (Some im) px cells palette lines True rb t = Inr res \<and>
                concat (colorGrid res) = cs \<and> length (colorGrid res) = h \<and>
                (\<forall>row\<in>set (colorGrid res). length row = w))"
    using processImage_dithered[where im = im and cells = cells and w = w and h = h
        and palette = palette and rb = rb and t = t and px = px and lines = lines]
    by blast
next
  assume "length pixels = 4 * w * h \<and> x < w \<and> y < h" "isBg x y"
  then show "ditherCell palette isBg w h pixels x y = Inr (''transparent'', pixels)"
    by (simp add: ditherCell_def Let_def)
next
  fix c
  assume pre: "length pixels = 4 * w * h \<and> x < w \<and> y < h"
    and nb: "\<not> isBg x y"
    and fc: "findClosestColor (chan pixels ((y * w + x) * 4))
                   (chan pixels ((y * w + x) * 4 + 1)) (chan pixels ((y * w + x) * 4 + 2)) palette
                   = Some c"
  have len: "length pixels = 4 * w * h" and xy: "x < w" "y < h" using pre by simp_all
  show "\<exists>p'. ditherCell palette isBg w h pixels x y = Inr (c, p') \<and>
                  length p' = length pixels \<and>
                  (\<forall>tx<w. \<forall>ty<h. \<forall>ch<4.
                     p' ! ((ty * w + tx) * 4 + ch) =
                       (case (if ch < 3 then kernel (int tx - int x) (int ty - int y) else None) of
                          None \<Rightarrow> pixels ! ((ty * w + tx) * 4 + ch)
                        | Some k \<Rightarrow>
                            toUint8Clamp
                              (nadd (Num (real (pixels ! ((ty * w + tx) * 4 + ch))))
                                 (share (nsub (chan pixels ((y * w + x) * 4 + ch))
                                           (component (channels c) ch)) k))))"
    by (rule ditherCell_nth[where isBg = isBg, OF len xy nb fc])
qed

text \<open>
  The statement on the image of two pixels: the first becomes \<^verbatim>\<open>#020100\<close>, the error
  1 of its red channel adds \<open>7/16\<close> to the red byte 1 of the second, which is stored
  as 1, and the second becomes \<^verbatim>\<open>#000000\<close>.
\<close>

theorem dithering_row_major_witness:
  "(\<exists>res. processImage (Some twoPixels) 10 29 [''#000000'', ''#020100''] True True False 30
           = Inr res \<and>
      concat (colorGrid res) = [''#020100'', ''#000000''] \<and> length (colorGrid res) = 1) \<and>
   (\<exists>p'. ditherCell [''#000000'', ''#020100''] (isBackgroundColor False {} 2) 2 1
           [3, 1, 0, 255, 1, 0, 0, 255] 0 0 = Inr (''#020100'', p') \<and>
        length p' = 8 \<and> p' ! 4 = 1 \<and> p' ! 0 = 3)"
proof (rule conjI)
  let ?pal = "[''#000000'', ''#020100'']"
  let ?px = "[3, 1, 0, 255, 1, 0, 0, 255] :: nat list"
  have d: "drawn twoPixels a b = ?px" for a b by (simp add: twoPixels_def)
  note t = dithering_row_major[where im = twoPixels and cells = 29 and w = 2 and h = 1
      and palette = ?pal and rb = False and t = 30 and px = 10 and lines = True,
      THEN conjunct1, rule_format]
  have "case ditherSeq ?pal (isBackgroundColor False {} 2) 2 1 ?px (rowMajor 2 1) of
       Inl e \<Rightarrow> processImage (Some twoPixels) 10 29 ?pal True True False 30 = Inl e
     | Inr (cs, p) \<Rightarrow>
         (\<exists>res. processImage (Some twoPixels) 10 29 ?pal True True False 30 = Inr res \<and>
            concat (colorGrid res) = cs \<and> length (colorGrid res) = 1 \<and>
            (\<forall>row\<in>set (colorGrid res). length row = 2))"
    using t twoPixels_dims by (simp add: d)
  then show "\<exists>res. processImage (Some twoPixels) 10 29 ?pal True True False 30 = Inr res \<and>
      concat (colorGrid res) = [''#020100'', ''#000000''] \<and> length (colorGrid res) = 1"
    unfolding twoPixels_seq by auto
next
  let ?pal = "[''#000000'', ''#020100'']"
  let ?px = "[3, 1, 0, 255, 1, 0, 0, 255] :: nat list"
  have fc: "findClosestColor (chan ?px ((0 * 2 + 0) * 4)) (chan ?px ((0 * 2 + 0) * 4 + 1))
      (chan ?px ((0 * 2 + 0) * 4 + 2)) ?pal = Some ''#020100''"
    by (simp add: quant_eval)
  have nb: "\<not> isBackgroundColor False {} 2 0 0" by (simp add: isBackgroundColor_def)
  have pre: "length ?px = 4 * 2 * 1 \<and> (0::nat) < 2 \<and> (0::nat) < 1" by simp
  note t = dithering_row_major[where pixels = ?px and w = 2 and h = 1 and x = 0 and y = 0
      and isBg = "isBackgroundColor False {} 2" and palette = ?pal,
      THEN conjunct2, rule_format, OF pre, THEN conjunct2, rule_format, OF nb fc]
  obtain p' where p: "ditherCell ?pal (isBackgroundColor False {} 2) 2 1 ?px 0 0
        = Inr (''#020100'', p')" "length p' = length ?px"
    "\<forall>tx<2. \<forall>ty<1. \<forall>ch<4.
        p' ! ((ty * 2 + tx) * 4 + ch) =
          (case (if ch < 3 then kernel (int tx - int 0) (int ty - int 0) else None) of
             None \<Rightarrow> ?px ! ((ty * 2 + tx) * 4 + ch)
           | Some k \<Rightarrow>
               toUint8Clamp
                 (nadd (Num (real (?px ! ((ty * 2 + tx) * 4 + ch))))
                    (share (nsub (chan ?px ((0 * 2 + 0) * 4 + ch))
                              (component (channels ''#020100'') ch)) k)))"
    using t by auto
  have a: "p' ! ((0 * 2 + 1) * 4 + 0) = 1"
    using p(3)[rule_format, of 1 0 0]
    by (simp add: kernel_def chan_def component_def parse_defs nsub_def nadd_def share_def
        nmul_def ndiv_def toUint8Clamp_def roundHalfEven_def)
  have b: "p' ! ((0 * 2 + 0) * 4 + 0) = 3"
    using p(3)[rule_format, of 0 0 0] by (simp add: kernel_def)
  show "\<exists>p'. ditherCell ?pal (isBackgroundColor False {} 2) 2 1 ?px 0 0 = Inr (''#020100'', p') \<and>
        length p' = 8 \<and> p' ! 4 = 1 \<and> p' ! 0 = 3"
    using p(1,2) a b by auto
qed

text \<open>
  Claim C4 as worded keeps a floating-point working copy that is clamped when it is read.
  On the same row the code's second pixel reads \<open>(1, 0, 0)\<close> and becomes \<^verbatim>\<open>#000000\<close>;
  on a floating-point copy it reads \<open>(1.4375, 0, 0)\<close> and becomes \<^verbatim>\<open>#020100\<close>.
\<close>

theorem dithering_differs_from_float_copy:
  "ditherRows [''#000000'', ''#020100''] (isBackgroundColor False {} 2) 2 1
     [3, 1, 0, 255, 1, 0, 0, 255] [0..<1] = Inr [[''#020100'', ''#000000'']] \<and>
   specDitherRows [''#000000'', ''#020100''] (isBackgroundColor False {} 2) 2 1
     [Num 3, Num 1, Num 0, Num 255, Num 1, Num 0, Num 0, Num 255] [0..<1]
     = Inr [[''#020100'', ''#020100'']]"
  using dither_code dither_spec by (rule conjI)

end
